theory Spec2Isabelle
  imports Main
begin

section \<open>The pipe relay of lshal: cmds/lshal/PipeRelay.cpp\<close>

text \<open>
  A \<open>PipeRelay\<close> owns a pipe and a worker thread (\<open>RelayThread\<close>) that copies what
  arrives at the read end into an output stream. The embedding keeps the two objects as
  records, the two streams, the log of system calls and the answers of the operating
  system in a record \<open>world\<close>, and every function of the source as a function on these.
  A function returns \<open>None\<close> when the answers of the operating system listed in the
  world do not describe a complete execution of it: the list ran out while the call was
  still waiting, or an answer is one the call cannot give.
\<close>

subsection \<open>Constants of the platform\<close>

type_synonym status_t = int

text \<open>\<open>OK\<close> and \<open>NO_INIT\<close> of utils/Errors.h, \<open>EINTR\<close> and \<open>ENODEV\<close> of errno.h (Linux).\<close>

definition OK :: status_t where
  "OK = 0"

definition EINTR :: int where
  "EINTR = 4"

definition ENODEV :: int where
  "ENODEV = 19"

definition NO_INIT :: status_t where
  "NO_INIT = - ENODEV"

type_synonym timeval = "int \<times> int"

text \<open>Line 31: \<open>READ_TIMEOUT { .tv_sec = 1, .tv_usec = 0 }\<close>.\<close>

definition READ_TIMEOUT :: timeval where
  "READ_TIMEOUT = (1, 0)"

text \<open>Line 70: \<open>char buffer[1024]\<close>; \<open>sizeof(buffer)\<close> is the count given to \<open>read\<close>.\<close>

definition sizeof_buffer :: nat where
  "sizeof_buffer = 1024"

subsection \<open>Answers of the operating system\<close>

text \<open>
  \<open>select\<close> returns \<open>-1\<close> and sets \<open>errno\<close>, or returns the number of ready
  descriptors; \<open>FD_ISSET\<close> then tells whether the read end is among them.
\<close>

datatype select_ret = SelectFail int | SelectOk nat bool

fun select_res :: "select_ret \<Rightarrow> int" where
  "select_res (SelectFail e) = - 1"
| "select_res (SelectOk k b) = int k"

fun FD_ISSET :: "select_ret \<Rightarrow> bool" where
  "FD_ISSET (SelectFail e) = False"
| "FD_ISSET (SelectOk k b) = b"

fun select_EINTR :: "select_ret \<Rightarrow> bool" where
  "select_EINTR (SelectFail e) = (e = EINTR)"
| "select_EINTR (SelectOk k b) = False"

text \<open>
  \<open>read\<close> returns \<open>-1\<close> and sets \<open>errno\<close>, or stores bytes at the start of the buffer
  and returns how many; no bytes is the end of the stream.
\<close>

datatype read_ret = ReadFail int | ReadOk string

fun read_n :: "read_ret \<Rightarrow> int" where
  "read_n (ReadFail e) = - 1"
| "read_n (ReadOk bs) = int (length bs)"

fun read_buffer :: "read_ret \<Rightarrow> string" where
  "read_buffer (ReadFail e) = []"
| "read_buffer (ReadOk bs) = bs"

fun read_EINTR :: "read_ret \<Rightarrow> bool" where
  "read_EINTR (ReadFail e) = (e = EINTR)"
| "read_EINTR (ReadOk bs) = False"

text \<open>A read asked for \<open>count\<close> bytes never stores more.\<close>

fun read_fits :: "nat \<Rightarrow> read_ret \<Rightarrow> bool" where
  "read_fits count (ReadFail e) = True"
| "read_fits count (ReadOk bs) = (length bs \<le> count)"

text \<open>
  \<open>pipe\<close> returns \<open>-1\<close> and sets \<open>errno\<close>, leaving the array as it is, or returns
  \<open>0\<close> and stores the read end and the write end.
\<close>

datatype pipe_ret = PipeFail int | PipeOk int int

text \<open>
  Modelled from the spec: the macro \<open>TEMP_FAILURE_RETRY\<close> of unistd.h is not in the
  sources. The spec has the wait ``interruptible by signals without treating the
  interruption as an error (retry the wait transparently)'': the call is made again
  while it fails with \<open>EINTR\<close>. The list holds the answers of the successive calls; the
  result is the first answer that is not an interruption and the answers left.
\<close>

fun TEMP_FAILURE_RETRY :: "('r \<Rightarrow> bool) \<Rightarrow> 'r list \<Rightarrow> ('r \<times> 'r list) option" where
  "TEMP_FAILURE_RETRY intr [] = None"
| "TEMP_FAILURE_RETRY intr (r # rs) =
     (if intr r then TEMP_FAILURE_RETRY intr rs else Some (r, rs))"

subsection \<open>The world: streams, log and pending answers\<close>

datatype action =
    ThreadRun string
  | SysSelect int timeval
  | SysRead int nat
  | SysClose int
  | StoreFinished
  | LoadFinished
  | ThreadExit
  | ThreadJoin

text \<open>
  \<open>mOutStream\<close> and \<open>mErrStream\<close> are what the two streams the worker refers to have
  received; the error stream is a \<open>NullableOStream\<close>, \<open>None\<close> when it has no stream
  behind it. \<open>trace\<close> logs the calls made, in order. \<open>select_rets\<close> and \<open>read_rets\<close>
  are the answers the operating system will give to the calls of \<open>select\<close> and of
  \<open>read\<close> still to come.
\<close>

record world =
  mOutStream :: string
  mErrStream :: "string option"
  trace :: "action list"
  select_rets :: "select_ret list"
  read_rets :: "read_ret list"

definition log :: "action \<Rightarrow> world \<Rightarrow> world" where
  "log a w = w\<lparr>trace := trace w @ [a]\<rparr>"

text \<open>Line 105: \<open>mOutStream.write(buffer, n)\<close> appends the first \<open>n\<close> bytes of the buffer.\<close>

definition out_write :: "string \<Rightarrow> int \<Rightarrow> world \<Rightarrow> world" where
  "out_write buffer n w = w\<lparr>mOutStream := mOutStream w @ take (nat n) buffer\<rparr>"

text \<open>
  Modelled from the spec: \<open>NullableOStream\<close> (NullableOStream.h) is not in the sources.
  The spec has the error sink ``optional \<dots> may be absent, in which case diagnostics
  are dropped'': \<open><<\<close> appends to the stream when there is one.
\<close>

definition err_put :: "string \<Rightarrow> world \<Rightarrow> world" where
  "err_put s w =
     (case mErrStream w of
        None \<Rightarrow> w
      | Some e \<Rightarrow> w\<lparr>mErrStream := Some (e @ s)\<rparr>)"

subsection \<open>The worker: \<open>PipeRelay::RelayThread\<close>\<close>

text \<open>
  \<open>pc\<close> is the state of the \<open>Thread\<close> base class and the place the thread has reached:
  not started, about to call \<open>threadLoop\<close>, inside \<open>threadLoop\<close> with the answer of
  \<open>select\<close> in hand (line 79), or exited.
\<close>

datatype position = NotStarted | LoopTop | AfterSelect select_ret | Exited

record RelayThread =
  mFd :: int
  mFinished :: bool
  mFqName :: string
  pc :: position

text \<open>Lines 64-67: the constructor.\<close>

definition RelayThread_new :: "int \<Rightarrow> string \<Rightarrow> RelayThread" where
  "RelayThread_new fd fqName =
     \<lparr>mFd = fd, mFinished = False, mFqName = fqName, pc = NotStarted\<rparr>"

text \<open>Lines 72-78: the wait, \<open>TEMP_FAILURE_RETRY(select(mFd + 1, &set, nullptr, nullptr, &timeout))\<close>.\<close>

definition threadLoop_select :: "RelayThread \<Rightarrow> world \<Rightarrow> (select_ret \<times> world) option" where
  "threadLoop_select t w =
     (case TEMP_FAILURE_RETRY select_EINTR (select_rets w) of
        None \<Rightarrow> None
      | Some (sr, rest) \<Rightarrow>
          Some (sr, log (SysSelect (mFd t) READ_TIMEOUT) (w\<lparr>select_rets := rest\<rparr>)))"

text \<open>Line 95: \<open>TEMP_FAILURE_RETRY(read(mFd, buffer, sizeof(buffer)))\<close>.\<close>

definition threadLoop_read :: "RelayThread \<Rightarrow> world \<Rightarrow> (read_ret \<times> world) option" where
  "threadLoop_read t w =
     (case TEMP_FAILURE_RETRY read_EINTR (read_rets w) of
        None \<Rightarrow> None
      | Some (rr, rest) \<Rightarrow>
          if read_fits sizeof_buffer rr
          then Some (rr, log (SysRead (mFd t) sizeof_buffer) (w\<lparr>read_rets := rest\<rparr>))
          else None)"

text \<open>Lines 79-107: the rest of \<open>threadLoop\<close>, from the answer \<open>sr\<close> of the wait.\<close>

definition threadLoop_body :: "RelayThread \<Rightarrow> select_ret \<Rightarrow> world \<Rightarrow> (bool \<times> world) option" where
  "threadLoop_body t sr w =
     (let res = select_res sr in
      if res < 0
      then Some (False,
             err_put '': select() failed'' (err_put (mFqName t) (err_put ''debug '' w)))
      else if res = 0 \<or> \<not> FD_ISSET sr
      then
        (let w1 = log LoadFinished w in
         if mFinished t
         then Some (False,
                err_put '': timeout reading from pipe, output may be truncated.''
                  (err_put (mFqName t) (err_put ''debug '' w1)))
         else Some (True, w1))
      else
        (case threadLoop_read t w of
           None \<Rightarrow> None
         | Some (rr, w1) \<Rightarrow>
             (let n = read_n rr;
                  w2 = (if n < 0
                        then err_put '': read() failed''
                               (err_put (mFqName t) (err_put ''debug '' w1))
                        else w1)
              in if n \<le> 0 then Some (False, w2)
                 else Some (True, out_write (read_buffer rr) n w2))))"

text \<open>Lines 69-108: \<open>threadLoop\<close>.\<close>

definition threadLoop :: "RelayThread \<Rightarrow> world \<Rightarrow> (bool \<times> world) option" where
  "threadLoop t w =
     (case threadLoop_select t w of
        None \<Rightarrow> None
      | Some (sr, w1) \<Rightarrow> threadLoop_body t sr w1)"

text \<open>Lines 110-112: \<open>setFinished\<close>.\<close>

definition setFinished :: "RelayThread \<Rightarrow> world \<Rightarrow> RelayThread \<times> world" where
  "setFinished t w = (t\<lparr>mFinished := True\<rparr>, log StoreFinished w)"

subsection \<open>The \<open>Thread\<close> base class\<close>

text \<open>
  Modelled from the spec: \<open>Thread\<close> (utils/Thread.h) is not in the sources. The spec has
  the worker ``initial state RUNNING on start'', its loop body ``executed repeatedly
  while RUNNING'', ``all exits are terminal'', and the owner able to ``block until the
  worker has exited'': \<open>run\<close> returns a status and the thread runs when the status is
  \<open>OK\<close>; the thread calls \<open>threadLoop\<close> again and again until it returns false;
  \<open>join\<close> returns when the thread is not running. \<open>thread_step\<close> is one move of the
  thread: from the top of the loop to the answer of the wait, or from that answer to
  the end of \<open>threadLoop\<close>.
\<close>

definition run :: "string \<Rightarrow> status_t \<Rightarrow> RelayThread \<Rightarrow> world \<Rightarrow> RelayThread \<times> world" where
  "run name status t w =
     ((if status = OK then t\<lparr>pc := LoopTop\<rparr> else t), log (ThreadRun name) w)"

definition thread_step :: "RelayThread \<Rightarrow> world \<Rightarrow> (RelayThread \<times> world) option" where
  "thread_step t w =
     (case pc t of
        NotStarted \<Rightarrow> Some (t, w)
      | Exited \<Rightarrow> Some (t, w)
      | LoopTop \<Rightarrow>
          (case threadLoop_select t w of
             None \<Rightarrow> None
           | Some (sr, w1) \<Rightarrow> Some (t\<lparr>pc := AfterSelect sr\<rparr>, w1))
      | AfterSelect sr \<Rightarrow>
          (case threadLoop_body t sr w of
             None \<Rightarrow> None
           | Some (again, w1) \<Rightarrow>
               if again then Some (t\<lparr>pc := LoopTop\<rparr>, w1)
               else Some (t\<lparr>pc := Exited\<rparr>, log ThreadExit w1)))"

fun thread_steps :: "nat \<Rightarrow> RelayThread \<Rightarrow> world \<Rightarrow> (RelayThread \<times> world) option" where
  "thread_steps 0 t w = Some (t, w)"
| "thread_steps (Suc k) t w =
     (case thread_step t w of
        None \<Rightarrow> None
      | Some (t1, w1) \<Rightarrow> thread_steps k t1 w1)"

definition running :: "RelayThread \<Rightarrow> bool" where
  "running t = (case pc t of NotStarted \<Rightarrow> False | Exited \<Rightarrow> False | _ \<Rightarrow> True)"

subsection \<open>The relay: \<open>PipeRelay\<close>\<close>

text \<open>Lines 33-37: \<open>getThreadName\<close>.\<close>

definition getThreadName :: "string \<Rightarrow> string \<Rightarrow> string" where
  "getThreadName interfaceName instanceName =
     (let interfaceName1 =
        (if CHR ''.'' \<in> set interfaceName
         then rev (takeWhile (\<lambda>c. c \<noteq> CHR ''.'') (rev interfaceName))
         else interfaceName)
      in ''RelayThread_'' @ interfaceName1 @ ''_'' @ instanceName)"

text \<open>
  \<open>mFds0\<close> and \<open>mFds1\<close> are \<open>mFds[0]\<close>, the read end, and \<open>mFds[1]\<close>, the write end;
  \<open>mThread\<close> is \<open>None\<close> for the null pointer.
\<close>

record PipeRelay =
  mInitCheck :: status_t
  mFds0 :: int
  mFds1 :: int
  mThread :: "RelayThread option"

text \<open>Lines 130-135: \<open>CloseFd\<close>, on the value of the slot; it returns the slot's new value.\<close>

definition CloseFd :: "int \<Rightarrow> world \<Rightarrow> int \<times> world" where
  "CloseFd fd w = (if fd \<ge> 0 then (- 1, log (SysClose fd) w) else (fd, w))"

text \<open>
  Lines 116-128: the constructor. \<open>fd0\<close> and \<open>fd1\<close> are what the two slots of \<open>mFds\<close>
  hold before \<open>pipe\<close> is called (the declaration of the member is in PipeRelay.h, not
  in the sources); a failed \<open>pipe\<close> leaves them as they are. \<open>pr\<close> is the answer of
  \<open>pipe\<close>, the case \<open>PipeFail\<close> being \<open>res < 0\<close>, and \<open>status\<close> the answer of
  \<open>Thread::run\<close>.
\<close>

definition PipeRelay_new ::
  "int \<Rightarrow> int \<Rightarrow> string \<Rightarrow> string \<Rightarrow> pipe_ret \<Rightarrow> status_t \<Rightarrow> world \<Rightarrow> PipeRelay \<times> world" where
  "PipeRelay_new fd0 fd1 interfaceName instanceName pr status w =
     (let this = \<lparr>mInitCheck = NO_INIT, mFds0 = fd0, mFds1 = fd1, mThread = None\<rparr> in
      case pr of
        PipeFail errno \<Rightarrow> (this\<lparr>mInitCheck := - errno\<rparr>, w)
      | PipeOk r wr \<Rightarrow>
          (let (t, w1) = run (getThreadName interfaceName instanceName) status
                           (RelayThread_new r (interfaceName @ ''/'' @ instanceName)) w
           in (this\<lparr>mFds0 := r, mFds1 := wr, mThread := Some t, mInitCheck := status\<rparr>, w1)))"

text \<open>Lines 149-155: \<open>initCheck\<close> and \<open>fd\<close>.\<close>

definition initCheck :: "PipeRelay \<Rightarrow> status_t" where
  "initCheck this = mInitCheck this"

definition fd :: "PipeRelay \<Rightarrow> int" where
  "fd this = mFds1 this"

text \<open>
  While the owner is busy elsewhere the worker moves on: \<open>worker_moves k\<close> lets the
  thread of the relay, when there is one, make \<open>k\<close> moves.
\<close>

definition worker_moves :: "nat \<Rightarrow> PipeRelay \<Rightarrow> world \<Rightarrow> (PipeRelay \<times> world) option" where
  "worker_moves k this w =
     (case mThread this of
        None \<Rightarrow> Some (this, w)
      | Some t \<Rightarrow>
          (case thread_steps k t w of
             None \<Rightarrow> None
           | Some (t1, w1) \<Rightarrow> Some (this\<lparr>mThread := Some t1\<rparr>, w1)))"

text \<open>
  The thread from where it is to its exit: the moves of \<open>Thread::_threadLoop\<close> until
  \<open>threadLoop\<close> returns false. Every wait takes at least one answer of \<open>select\<close>, so
  the moves end; \<open>None\<close> says the answers ran out with the thread still running.
\<close>

function run_thread :: "RelayThread \<Rightarrow> world \<Rightarrow> (RelayThread \<times> world) option" where
  "run_thread t w =
     (if running t
      then (case thread_step t w of
              None \<Rightarrow> None
            | Some (t1, w1) \<Rightarrow> run_thread t1 w1)
      else Some (t, w))"
  by pat_completeness auto
termination
proof (relation "measure (\<lambda>(t, w). 2 * length (select_rets w)
                   + (case pc t of AfterSelect sr \<Rightarrow> 1 | _ \<Rightarrow> 0))")
  show "wf (measure (\<lambda>(t, w). 2 * length (select_rets w)
                   + (case pc t of AfterSelect sr \<Rightarrow> 1 | _ \<Rightarrow> 0)))"
    by simp
next
  fix t w x t1 w1
  assume r: "running t" and s: "thread_step t w = Some x" and x: "(t1, w1) = x"
  have shorter: "TEMP_FAILURE_RETRY select_EINTR rs = Some (sr, rest) \<Longrightarrow> length rest < length rs"
    for rs sr rest
    by (induction rs) (auto split: if_splits)
  have body: "threadLoop_body t sr w = Some (b, w2) \<Longrightarrow> select_rets w2 = select_rets w"
    for sr b w2
    by (auto simp: threadLoop_body_def threadLoop_read_def Let_def log_def out_write_def
          err_put_def split: if_splits option.splits)
  show "((t1, w1), (t, w)) \<in> measure (\<lambda>(t, w). 2 * length (select_rets w)
                   + (case pc t of AfterSelect sr \<Rightarrow> 1 | _ \<Rightarrow> 0))"
  proof (cases "pc t")
    case NotStarted
    with r show ?thesis by (simp add: running_def)
  next
    case LoopTop
    with s x obtain sr rest where "TEMP_FAILURE_RETRY select_EINTR (select_rets w) = Some (sr, rest)"
      "select_rets w1 = rest" "pc t1 = AfterSelect sr"
      by (auto simp: thread_step_def threadLoop_select_def log_def split: option.splits)
    with LoopTop show ?thesis
      by (auto dest: shorter)
  next
    case (AfterSelect sr)
    with s x show ?thesis
      using body [of sr]
      by (auto simp: thread_step_def log_def split: option.splits if_splits)
  next
    case Exited
    with r show ?thesis by (simp add: running_def)
  qed
qed

declare run_thread.simps [simp del]

text \<open>\<open>Thread::join\<close>: the caller waits until the thread is not running.\<close>

definition join :: "RelayThread \<Rightarrow> world \<Rightarrow> (RelayThread \<times> world) option" where
  "join t w =
     (case run_thread t w of
        None \<Rightarrow> None
      | Some (t1, w1) \<Rightarrow> Some (t1, log ThreadJoin w1))"

text \<open>
  Lines 137-147: the destructor, statement by statement. The owner of the relay and
  the worker run side by side, so the destructor is given as the moves of the owner:
  \<open>delete_step\<close> is one statement, from the line the owner is at. At line 142 the
  owner waits in \<open>join\<close>: while the thread is running the move changes nothing. (Line
  142 is reached from line 140 only, with a thread object.)
\<close>

datatype delete_pc = Line138 | Line140 | Line142 | Line143 | Line146 | Returned

definition delete_step :: "delete_pc \<Rightarrow> PipeRelay \<Rightarrow> world \<Rightarrow> delete_pc \<times> PipeRelay \<times> world" where
  "delete_step p this w =
     (case p of
        Line138 \<Rightarrow>
          (let (fd1, w1) = CloseFd (mFds1 this) w in (Line140, this\<lparr>mFds1 := fd1\<rparr>, w1))
      | Line140 \<Rightarrow>
          (case mThread this of
             None \<Rightarrow> (Line146, this, w)
           | Some t \<Rightarrow>
               (let (t1, w1) = setFinished t w in (Line142, this\<lparr>mThread := Some t1\<rparr>, w1)))
      | Line142 \<Rightarrow>
          (case mThread this of
             None \<Rightarrow> (Line142, this, w)
           | Some t \<Rightarrow>
               if running t then (Line142, this, w) else (Line143, this, log ThreadJoin w))
      | Line143 \<Rightarrow> (Line146, this\<lparr>mThread := None\<rparr>, w)
      | Line146 \<Rightarrow>
          (let (fd0, w1) = CloseFd (mFds0 this) w in (Returned, this\<lparr>mFds0 := fd0\<rparr>, w1))
      | Returned \<Rightarrow> (Returned, this, w))"

text \<open>
  A schedule says who moves next, the owner in the destructor or the worker;
  \<open>system_run\<close> takes the relay, from the line the owner is at, through a schedule.
\<close>

datatype tick = Owner | Worker

definition system_step ::
  "tick \<Rightarrow> delete_pc \<times> PipeRelay \<times> world \<Rightarrow> (delete_pc \<times> PipeRelay \<times> world) option" where
  "system_step x s =
     (case s of (p, this, w) \<Rightarrow>
        (case x of
           Owner \<Rightarrow> Some (delete_step p this w)
         | Worker \<Rightarrow>
             (case worker_moves 1 this w of
                None \<Rightarrow> None
              | Some (this1, w1) \<Rightarrow> Some (p, this1, w1))))"

fun system_run ::
  "tick list \<Rightarrow> delete_pc \<times> PipeRelay \<times> world \<Rightarrow> (delete_pc \<times> PipeRelay \<times> world) option" where
  "system_run [] s = Some s"
| "system_run (x # xs) s =
     (case system_step x s of
        None \<Rightarrow> None
      | Some s1 \<Rightarrow> system_run xs s1)"

text \<open>
  Lines 137-147 in one piece: the destructor from its call to its return. \<open>k\<close> is the
  number of moves the worker makes between the close of the write end (line 138) and
  the store to the flag (line 141); its moves after the store are those \<open>join\<close> waits
  for.
\<close>

definition PipeRelay_delete :: "nat \<Rightarrow> PipeRelay \<Rightarrow> world \<Rightarrow> (PipeRelay \<times> world) option" where
  "PipeRelay_delete k this w =
     (let (fd1, w1) = CloseFd (mFds1 this) w in
      case mThread this of
        None \<Rightarrow>
          (let (fd0, w4) = CloseFd (mFds0 this) w1
           in Some (this\<lparr>mFds0 := fd0, mFds1 := fd1\<rparr>, w4))
      | Some t \<Rightarrow>
          (case thread_steps k t w1 of
             None \<Rightarrow> None
           | Some (t1, w1a) \<Rightarrow>
               (let (t2, w2) = setFinished t1 w1a in
                case join t2 w2 of
                  None \<Rightarrow> None
                | Some (t3, w3) \<Rightarrow>
                    (let (fd0, w4) = CloseFd (mFds0 this) w3
                     in Some (this\<lparr>mFds0 := fd0, mFds1 := fd1, mThread := None\<rparr>, w4)))))"

subsection \<open>The world before a relay is made\<close>

definition world_init :: "string option \<Rightarrow> select_ret list \<Rightarrow> read_ret list \<Rightarrow> world" where
  "world_init err sels reads =
     \<lparr>mOutStream = [], mErrStream = err, trace = [], select_rets = sels, read_rets = reads\<rparr>"

subsection \<open>The diagnostics of the worker\<close>

text \<open>The three messages \<open>threadLoop\<close> can send to the error stream (lines 80, 86-87, 98).\<close>

definition diagnostics :: "RelayThread \<Rightarrow> string list" where
  "diagnostics t =
     [''debug '' @ mFqName t @ '': select() failed'',
      ''debug '' @ mFqName t @ '': timeout reading from pipe, output may be truncated.'',
      ''debug '' @ mFqName t @ '': read() failed'']"

subsection \<open>The calls of the worker\<close>

text \<open>What the thread \<open>t\<close> can add to the log: its wait, its read, its look at the flag, its exit.\<close>

definition worker_action :: "RelayThread \<Rightarrow> action \<Rightarrow> bool" where
  "worker_action t a =
     (a = SysSelect (mFd t) READ_TIMEOUT \<or> a = SysRead (mFd t) sizeof_buffer \<or>
      a = LoadFinished \<or> a = ThreadExit)"

subsection \<open>A destruction under way\<close>

text \<open>
  What the log and the relay look like when the owner is at line \<open>p\<close> of the
  destructor of the relay \<open>this\<close>, whose thread was \<open>t\<close>, entered in the world \<open>w\<close>:
  \<open>wa\<close>, \<open>wb\<close> and \<open>wc\<close> are the calls the worker has made before line 138, between
  lines 138 and 141, and after line 141.
\<close>

definition destruction_state ::
  "RelayThread \<Rightarrow> PipeRelay \<Rightarrow> world \<Rightarrow> action list \<Rightarrow> action list \<Rightarrow> action list \<Rightarrow>
   delete_pc \<times> PipeRelay \<times> world \<Rightarrow> bool" where
  "destruction_state t this w wa wb wc s =
     (case s of (p, this1, w1) \<Rightarrow>
        (\<forall>a\<in>set (wa @ wb @ wc). worker_action t a) \<and>
        trace w1 = trace w @
          (case p of
             Line138 \<Rightarrow> wa
           | Line140 \<Rightarrow> wa @ (if 0 \<le> mFds1 this then [SysClose (mFds1 this)] else []) @ wb
           | Line142 \<Rightarrow> wa @ (if 0 \<le> mFds1 this then [SysClose (mFds1 this)] else []) @ wb @
                         StoreFinished # wc
           | Line143 \<Rightarrow> wa @ (if 0 \<le> mFds1 this then [SysClose (mFds1 this)] else []) @ wb @
                         StoreFinished # wc @ [ThreadJoin]
           | Line146 \<Rightarrow> wa @ (if 0 \<le> mFds1 this then [SysClose (mFds1 this)] else []) @ wb @
                         StoreFinished # wc @ [ThreadJoin]
           | Returned \<Rightarrow> wa @ (if 0 \<le> mFds1 this then [SysClose (mFds1 this)] else []) @ wb @
                         StoreFinished # wc @ ThreadJoin #
                         (if 0 \<le> mFds0 this then [SysClose (mFds0 this)] else [])) \<and>
        (p = Line138 \<longrightarrow> wb = [] \<and> wc = [] \<and> mFds1 this1 = mFds1 this) \<and>
        (p = Line140 \<longrightarrow> wc = []) \<and>
        (p \<noteq> Returned \<longrightarrow> mFds0 this1 = mFds0 this) \<and>
        (case mThread this1 of
           None \<Rightarrow>
             (p = Line146 \<or> p = Returned) \<and>
             (if running t then wa @ wb @ wc \<noteq> [] \<and> last (wa @ wb @ wc) = ThreadExit
              else wa @ wb @ wc = [])
         | Some t1 \<Rightarrow>
             (p = Line138 \<or> p = Line140 \<or> p = Line142 \<or> p = Line143) \<and>
             mFd t1 = mFd t \<and> mFqName t1 = mFqName t \<and>
             mFinished t1 = (if p = Line138 \<or> p = Line140 then mFinished t else True) \<and>
             (p = Line143 \<longrightarrow> \<not> running t1) \<and>
             (running t1 \<longrightarrow> running t) \<and>
             (\<not> running t1 \<longrightarrow>
                (if running t then wa @ wb @ wc \<noteq> [] \<and> last (wa @ wb @ wc) = ThreadExit
                 else wa @ wb @ wc = []))))"

section \<open>Properties\<close>

subsection \<open>Auxiliary facts\<close>

lemma TEMP_FAILURE_RETRY_skip:
  "\<forall>x\<in>set xs. intr x \<Longrightarrow> \<not> intr r \<Longrightarrow> TEMP_FAILURE_RETRY intr (xs @ r # rest) = Some (r, rest)"
  by (induction xs) auto

lemma TEMP_FAILURE_RETRY_Some:
  "TEMP_FAILURE_RETRY intr rs = Some (r, rest) \<Longrightarrow>
     \<exists>xs. rs = xs @ r # rest \<and> (\<forall>x\<in>set xs. intr x) \<and> \<not> intr r"
proof (induction rs)
  case Nil
  then show ?case by simp
next
  case (Cons a rs)
  show ?case
  proof (cases "intr a")
    case True
    with Cons obtain xs where "rs = xs @ r # rest" "\<forall>x\<in>set xs. intr x" "\<not> intr r"
      by auto
    with True have "a # rs = (a # xs) @ r # rest \<and> (\<forall>x\<in>set (a # xs). intr x) \<and> \<not> intr r"
      by simp
    then show ?thesis by blast
  next
    case False
    with Cons.prems have "a # rs = [] @ r # rest \<and> (\<forall>x\<in>set []. intr x) \<and> \<not> intr r"
      by simp
    then show ?thesis by blast
  qed
qed

lemma err_put_simps [simp]:
  "mOutStream (err_put s w) = mOutStream w"
  "trace (err_put s w) = trace w"
  "select_rets (err_put s w) = select_rets w"
  "read_rets (err_put s w) = read_rets w"
  "mErrStream (err_put s w) = map_option (\<lambda>e. e @ s) (mErrStream w)"
  by (simp_all add: err_put_def split: option.splits)

lemma log_simps [simp]:
  "mOutStream (log a w) = mOutStream w"
  "trace (log a w) = trace w @ [a]"
  "select_rets (log a w) = select_rets w"
  "read_rets (log a w) = read_rets w"
  "mErrStream (log a w) = mErrStream w"
  by (simp_all add: log_def)

lemma out_write_simps [simp]:
  "mOutStream (out_write b n w) = mOutStream w @ take (nat n) b"
  "trace (out_write b n w) = trace w"
  "select_rets (out_write b n w) = select_rets w"
  "read_rets (out_write b n w) = read_rets w"
  "mErrStream (out_write b n w) = mErrStream w"
  by (simp_all add: out_write_def)

lemma err_put_append: "err_put b (err_put a w) = err_put (a @ b) w"
  by (simp add: err_put_def split: option.splits)

lemma threadLoop_body_fail:
  "select_res sr < 0 \<Longrightarrow>
     threadLoop_body t sr w = Some (False, err_put (''debug '' @ mFqName t @ '': select() failed'') w)"
  by (simp add: threadLoop_body_def err_put_append)

lemma threadLoop_body_timeout:
  "0 \<le> select_res sr \<Longrightarrow> select_res sr = 0 \<or> \<not> FD_ISSET sr \<Longrightarrow>
     threadLoop_body t sr w =
       (if mFinished t
        then Some (False, err_put (''debug '' @ mFqName t @
                     '': timeout reading from pipe, output may be truncated.'') (log LoadFinished w))
        else Some (True, log LoadFinished w))"
  by (auto simp: threadLoop_body_def err_put_append Let_def)

lemma threadLoop_body_ready:
  "0 < select_res sr \<Longrightarrow> FD_ISSET sr \<Longrightarrow>
     threadLoop_body t sr w =
       (case threadLoop_read t w of
          None \<Rightarrow> None
        | Some (ReadFail e, w1) \<Rightarrow> Some (False, err_put (''debug '' @ mFqName t @ '': read() failed'') w1)
        | Some (ReadOk bs, w1) \<Rightarrow>
            if bs = [] then Some (False, w1)
            else Some (True, w1\<lparr>mOutStream := mOutStream w1 @ bs\<rparr>))"
  by (auto simp: threadLoop_body_def err_put_append Let_def out_write_def
           split: option.splits read_ret.splits)

lemma thread_step_fields:
  "thread_step t w = Some (t1, w1) \<Longrightarrow>
     mFd t1 = mFd t \<and> mFinished t1 = mFinished t \<and> mFqName t1 = mFqName t"
  by (auto simp: thread_step_def split: position.splits option.splits if_splits)

lemma thread_steps_fields:
  "thread_steps k t w = Some (t1, w1) \<Longrightarrow>
     mFd t1 = mFd t \<and> mFinished t1 = mFinished t \<and> mFqName t1 = mFqName t"
proof (induction k arbitrary: t w)
  case 0
  then show ?case by simp
next
  case (Suc k)
  then obtain t2 w2 where a: "thread_step t w = Some (t2, w2)" and b: "thread_steps k t2 w2 = Some (t1, w1)"
    by (auto split: option.splits)
  from Suc.IH [OF b] thread_step_fields [OF a] show ?case by simp
qed

lemma thread_step_not_running: "\<not> running t \<Longrightarrow> thread_step t w = Some (t, w)"
  by (auto simp: running_def thread_step_def split: position.splits)

lemma thread_steps_not_running: "\<not> running t \<Longrightarrow> thread_steps k t w = Some (t, w)"
  by (induction k) (auto simp: thread_step_not_running)

lemma run_thread_steps:
  "run_thread t w = Some (t1, w1) \<Longrightarrow> \<exists>k. thread_steps k t w = Some (t1, w1) \<and> \<not> running t1"
proof (induction t w rule: run_thread.induct)
  case (1 t w)
  show ?case
  proof (cases "running t")
    case False
    with "1.prems" have "thread_steps 0 t w = Some (t1, w1) \<and> \<not> running t1"
      by (simp add: run_thread.simps [of t w])
    then show ?thesis by blast
  next
    case True
    with "1.prems" obtain t2 w2 where a: "thread_step t w = Some (t2, w2)"
      and b: "run_thread t2 w2 = Some (t1, w1)"
      by (auto simp: run_thread.simps [of t w] split: option.splits)
    from "1.IH" [OF True a refl b] obtain k where "thread_steps k t2 w2 = Some (t1, w1)" "\<not> running t1"
      by blast
    with a have "thread_steps (Suc k) t w = Some (t1, w1) \<and> \<not> running t1" by simp
    then show ?thesis by blast
  qed
qed

lemma CloseFd_simps [simp]:
  "mOutStream (snd (CloseFd d w)) = mOutStream w"
  "mErrStream (snd (CloseFd d w)) = mErrStream w"
  "select_rets (snd (CloseFd d w)) = select_rets w"
  "read_rets (snd (CloseFd d w)) = read_rets w"
  "trace (snd (CloseFd d w)) = trace w @ (if 0 \<le> d then [SysClose d] else [])"
  by (simp_all add: CloseFd_def)

lemma TEMP_FAILURE_RETRY_replicate:
  "intr x \<Longrightarrow> \<not> intr r \<Longrightarrow> TEMP_FAILURE_RETRY intr (replicate j x @ r # rest) = Some (r, rest)"
  by (rule TEMP_FAILURE_RETRY_skip) auto

lemma threadLoop_select_skip:
  "select_rets w = replicate j (SelectFail EINTR) @ sr # rest \<Longrightarrow> \<not> select_EINTR sr \<Longrightarrow>
     threadLoop_select t w = Some (sr, log (SysSelect (mFd t) READ_TIMEOUT) (w\<lparr>select_rets := rest\<rparr>))"
  by (simp add: threadLoop_select_def TEMP_FAILURE_RETRY_replicate)

lemma threadLoop_read_skip:
  "read_rets w = replicate i (ReadFail EINTR) @ rr # rest \<Longrightarrow> \<not> read_EINTR rr \<Longrightarrow>
   read_fits sizeof_buffer rr \<Longrightarrow>
     threadLoop_read t w = Some (rr, log (SysRead (mFd t) sizeof_buffer) (w\<lparr>read_rets := rest\<rparr>))"
  by (simp add: threadLoop_read_def TEMP_FAILURE_RETRY_replicate)

lemma threadLoop_select_pc [simp]: "threadLoop_select (t\<lparr>pc := p\<rparr>) w = threadLoop_select t w"
  by (simp add: threadLoop_select_def split: option.splits)

lemma threadLoop_read_pc [simp]: "threadLoop_read (t\<lparr>pc := p\<rparr>) w = threadLoop_read t w"
  by (simp add: threadLoop_read_def split: option.splits)

lemma threadLoop_body_pc [simp]: "threadLoop_body (t\<lparr>pc := p\<rparr>) sr w = threadLoop_body t sr w"
  by (simp add: threadLoop_body_def Let_def cong: if_cong option.case_cong)

lemma threadLoop_pc [simp]: "threadLoop (t\<lparr>pc := p\<rparr>) w = threadLoop t w"
  by (simp add: threadLoop_def split: option.splits)

lemma threadLoop_steps:
  assumes "pc t = LoopTop" and "threadLoop t w = Some (again, w1)"
  shows "thread_steps 2 t w =
       (if again then Some (t\<lparr>pc := LoopTop\<rparr>, w1) else Some (t\<lparr>pc := Exited\<rparr>, log ThreadExit w1))"
proof -
  from assms(2) obtain sr w0 where a: "threadLoop_select t w = Some (sr, w0)"
    and b: "threadLoop_body t sr w0 = Some (again, w1)"
    by (auto simp: threadLoop_def split: option.splits)
  from a assms(1) have "thread_step t w = Some (t\<lparr>pc := AfterSelect sr\<rparr>, w0)"
    by (simp add: thread_step_def)
  moreover from b have "thread_step (t\<lparr>pc := AfterSelect sr\<rparr>) w0 =
      (if again then Some (t\<lparr>pc := LoopTop\<rparr>, w1) else Some (t\<lparr>pc := Exited\<rparr>, log ThreadExit w1))"
    by (simp add: thread_step_def)
  ultimately show ?thesis
    by (simp add: numeral_2_eq_2)
qed

lemma threadLoop_ready:
  assumes sel: "select_rets w = replicate j (SelectFail EINTR) @ SelectOk (Suc n) True # srest"
    and rd: "read_rets w = replicate i (ReadFail EINTR) @ rr # rrest"
    and rr: "\<not> read_EINTR rr" "read_fits sizeof_buffer rr"
  shows "threadLoop t w =
     (let w1 = w\<lparr>select_rets := srest, read_rets := rrest,
                  trace := trace w @ [SysSelect (mFd t) READ_TIMEOUT, SysRead (mFd t) sizeof_buffer]\<rparr>
      in case rr of
           ReadFail e \<Rightarrow> Some (False, err_put (''debug '' @ mFqName t @ '': read() failed'') w1)
         | ReadOk bs \<Rightarrow>
             if bs = [] then Some (False, w1)
             else Some (True, w1\<lparr>mOutStream := mOutStream w @ bs\<rparr>))"
proof -
  let ?w1 = "log (SysSelect (mFd t) READ_TIMEOUT) (w\<lparr>select_rets := srest\<rparr>)"
  from sel have a: "threadLoop_select t w = Some (SelectOk (Suc n) True, ?w1)"
    by (simp add: threadLoop_select_skip)
  from rd have "read_rets ?w1 = replicate i (ReadFail EINTR) @ rr # rrest"
    by simp
  with rr have b: "threadLoop_read t ?w1 =
      Some (rr, log (SysRead (mFd t) sizeof_buffer) (?w1\<lparr>read_rets := rrest\<rparr>))"
    by (simp add: threadLoop_read_skip)
  have "threadLoop t w =
      (case rr of
         ReadFail e \<Rightarrow> Some (False, err_put (''debug '' @ mFqName t @ '': read() failed'')
             (log (SysRead (mFd t) sizeof_buffer) (?w1\<lparr>read_rets := rrest\<rparr>)))
       | ReadOk bs \<Rightarrow>
           if bs = [] then Some (False, log (SysRead (mFd t) sizeof_buffer) (?w1\<lparr>read_rets := rrest\<rparr>))
           else Some (True, (log (SysRead (mFd t) sizeof_buffer) (?w1\<lparr>read_rets := rrest\<rparr>))
                  \<lparr>mOutStream := mOutStream w @ bs\<rparr>))"
    by (simp add: threadLoop_def a threadLoop_body_ready b split: read_ret.splits)
  then show ?thesis
    by (cases rr) (simp_all add: log_def Let_def)
qed

lemma threadLoop_select_frame:
  "threadLoop_select t w = Some (sr, w1) \<Longrightarrow>
     mErrStream w1 = mErrStream w \<and> mOutStream w1 = mOutStream w \<and> read_rets w1 = read_rets w \<and>
     trace w1 = trace w @ [SysSelect (mFd t) READ_TIMEOUT]"
  by (auto simp: threadLoop_select_def split: option.splits)

lemma threadLoop_read_frame:
  "threadLoop_read t w = Some (rr, w1) \<Longrightarrow>
     mErrStream w1 = mErrStream w \<and> mOutStream w1 = mOutStream w \<and> select_rets w1 = select_rets w \<and>
     trace w1 = trace w @ [SysRead (mFd t) sizeof_buffer] \<and>
     (\<exists>xs. read_rets w = xs @ rr # read_rets w1 \<and> (\<forall>x\<in>set xs. read_EINTR x)) \<and>
     \<not> read_EINTR rr \<and> read_fits sizeof_buffer rr"
  by (auto simp: threadLoop_read_def split: option.splits if_splits
           dest!: TEMP_FAILURE_RETRY_Some)

lemma threadLoop_body_err:
  "threadLoop_body t sr w = Some (again, w1) \<Longrightarrow>
     (mErrStream w1 = mErrStream w) \<or>
     (\<not> again \<and> (\<exists>d\<in>set (diagnostics t). mErrStream w1 = mErrStream (err_put d w)))"
proof -
  assume a: "threadLoop_body t sr w = Some (again, w1)"
  consider (fail) "select_res sr < 0"
    | (timeout) "0 \<le> select_res sr" "select_res sr = 0 \<or> \<not> FD_ISSET sr"
    | (ready) "0 < select_res sr" "FD_ISSET sr"
    by fastforce
  then show ?thesis
  proof cases
    case fail
    with a show ?thesis
      by (auto simp: threadLoop_body_fail diagnostics_def)
  next
    case timeout
    with a show ?thesis
      by (auto simp: threadLoop_body_timeout diagnostics_def split: if_splits)
  next
    case ready
    with a show ?thesis
      by (auto simp: threadLoop_body_ready diagnostics_def
               split: option.splits read_ret.splits if_splits dest!: threadLoop_read_frame)
  qed
qed

lemma thread_step_err:
  "thread_step t w = Some (t1, w1) \<Longrightarrow>
     mErrStream w1 = mErrStream w \<or>
     (\<not> running t1 \<and> (\<exists>d\<in>set (diagnostics t). mErrStream w1 = mErrStream (err_put d w)))"
proof (cases "pc t")
  case NotStarted
  assume "thread_step t w = Some (t1, w1)"
  with NotStarted show ?thesis by (simp add: thread_step_def)
next
  case LoopTop
  assume "thread_step t w = Some (t1, w1)"
  with LoopTop show ?thesis
    by (auto simp: thread_step_def split: option.splits dest: threadLoop_select_frame)
next
  case (AfterSelect sr)
  assume "thread_step t w = Some (t1, w1)"
  with AfterSelect obtain again w0 where b: "threadLoop_body t sr w = Some (again, w0)"
    and c: "if again then t1 = t\<lparr>pc := LoopTop\<rparr> \<and> w1 = w0
            else t1 = t\<lparr>pc := Exited\<rparr> \<and> w1 = log ThreadExit w0"
    by (auto simp: thread_step_def split: option.splits if_splits)
  from threadLoop_body_err [OF b] c show ?thesis
    by (auto simp: running_def split: if_splits)
next
  case Exited
  assume "thread_step t w = Some (t1, w1)"
  with Exited show ?thesis by (simp add: thread_step_def)
qed

lemma thread_steps_err:
  "thread_steps k t w = Some (t1, w1) \<Longrightarrow>
     mErrStream w1 = mErrStream w \<or>
     (\<not> running t1 \<and> (\<exists>d\<in>set (diagnostics t). mErrStream w1 = mErrStream (err_put d w)))"
proof (induction k arbitrary: t w)
  case 0
  then show ?case by simp
next
  case (Suc k)
  then obtain t2 w2 where a: "thread_step t w = Some (t2, w2)"
    and b: "thread_steps k t2 w2 = Some (t1, w1)"
    by (auto split: option.splits)
  have d: "diagnostics t2 = diagnostics t"
    using thread_step_fields [OF a] by (simp add: diagnostics_def)
  from thread_step_err [OF a] show ?case
  proof
    assume e: "mErrStream w2 = mErrStream w"
    with Suc.IH [OF b] d show ?thesis by auto
  next
    assume e: "\<not> running t2 \<and> (\<exists>d\<in>set (diagnostics t). mErrStream w2 = mErrStream (err_put d w))"
    with b have "t1 = t2" "w1 = w2" by (simp_all add: thread_steps_not_running)
    with e show ?thesis by simp
  qed
qed

lemma PipeRelay_delete_thread:
  "mThread this = Some t \<Longrightarrow>
     PipeRelay_delete k this w =
       (case thread_steps k t (snd (CloseFd (mFds1 this) w)) of
          None \<Rightarrow> None
        | Some (t1, wa) \<Rightarrow>
            (case run_thread (t1\<lparr>mFinished := True\<rparr>) (log StoreFinished wa) of
               None \<Rightarrow> None
             | Some (t3, w3) \<Rightarrow>
                 Some (this\<lparr>mFds0 := fst (CloseFd (mFds0 this) (log ThreadJoin w3)),
                            mFds1 := fst (CloseFd (mFds1 this) w), mThread := None\<rparr>,
                       snd (CloseFd (mFds0 this) (log ThreadJoin w3)))))"
  by (simp add: PipeRelay_delete_def setFinished_def join_def split_beta
           split: option.splits)

lemma PipeRelay_delete_null:
  "mThread this = None \<Longrightarrow>
     PipeRelay_delete k this w =
       Some (this\<lparr>mFds0 := fst (CloseFd (mFds0 this) (snd (CloseFd (mFds1 this) w))),
                  mFds1 := fst (CloseFd (mFds1 this) w)\<rparr>,
             snd (CloseFd (mFds0 this) (snd (CloseFd (mFds1 this) w))))"
  by (simp add: PipeRelay_delete_def split_beta)

lemma threadLoop_body_out:
  "threadLoop_body t sr w = Some (again, w1) \<Longrightarrow>
     \<exists>c. read_rets w = c @ read_rets w1 \<and> mOutStream w1 = mOutStream w @ concat (map read_buffer c)"
proof -
  assume a: "threadLoop_body t sr w = Some (again, w1)"
  consider (fail) "select_res sr < 0"
    | (timeout) "0 \<le> select_res sr" "select_res sr = 0 \<or> \<not> FD_ISSET sr"
    | (ready) "0 < select_res sr" "FD_ISSET sr"
    by fastforce
  then show ?thesis
  proof cases
    case fail
    with a have "read_rets w = [] @ read_rets w1 \<and> mOutStream w1 = mOutStream w @ concat (map read_buffer [])"
      by (auto simp: threadLoop_body_fail)
    then show ?thesis by blast
  next
    case timeout
    with a have "read_rets w = [] @ read_rets w1 \<and> mOutStream w1 = mOutStream w @ concat (map read_buffer [])"
      by (auto simp: threadLoop_body_timeout split: if_splits)
    then show ?thesis by blast
  next
    case ready
    with a obtain rr w0 where r: "threadLoop_read t w = Some (rr, w0)"
      and o: "mOutStream w1 = mOutStream w0 @ read_buffer rr" and q: "read_rets w1 = read_rets w0"
      by (auto simp: threadLoop_body_ready split: option.splits read_ret.splits if_splits)
    from threadLoop_read_frame [OF r] obtain xs where
      x: "read_rets w = xs @ rr # read_rets w0" "\<forall>x\<in>set xs. read_EINTR x" "mOutStream w0 = mOutStream w"
      by blast
    have "concat (map read_buffer xs) = []"
      using x(2) by (induction xs) (auto elim: read_EINTR.elims)
    with x o q have "read_rets w = (xs @ [rr]) @ read_rets w1 \<and>
        mOutStream w1 = mOutStream w @ concat (map read_buffer (xs @ [rr]))"
      by simp
    then show ?thesis by blast
  qed
qed

lemma thread_step_out:
  "thread_step t w = Some (t1, w1) \<Longrightarrow>
     \<exists>c. read_rets w = c @ read_rets w1 \<and> mOutStream w1 = mOutStream w @ concat (map read_buffer c)"
proof (cases "pc t")
  case NotStarted
  assume "thread_step t w = Some (t1, w1)"
  with NotStarted have "read_rets w = [] @ read_rets w1 \<and> mOutStream w1 = mOutStream w @ concat (map read_buffer [])"
    by (simp add: thread_step_def)
  then show ?thesis by blast
next
  case LoopTop
  assume "thread_step t w = Some (t1, w1)"
  with LoopTop have "read_rets w = [] @ read_rets w1 \<and> mOutStream w1 = mOutStream w @ concat (map read_buffer [])"
    by (auto simp: thread_step_def split: option.splits dest: threadLoop_select_frame)
  then show ?thesis by blast
next
  case (AfterSelect sr)
  assume "thread_step t w = Some (t1, w1)"
  with AfterSelect obtain again w0 where b: "threadLoop_body t sr w = Some (again, w0)"
    and c: "w1 = w0 \<or> w1 = log ThreadExit w0"
    by (auto simp: thread_step_def split: option.splits if_splits)
  from threadLoop_body_out [OF b] c show ?thesis
    by auto
next
  case Exited
  assume "thread_step t w = Some (t1, w1)"
  with Exited have "read_rets w = [] @ read_rets w1 \<and> mOutStream w1 = mOutStream w @ concat (map read_buffer [])"
    by (simp add: thread_step_def)
  then show ?thesis by blast
qed

lemma thread_steps_out:
  "thread_steps k t w = Some (t1, w1) \<Longrightarrow>
     \<exists>c. read_rets w = c @ read_rets w1 \<and> mOutStream w1 = mOutStream w @ concat (map read_buffer c)"
proof (induction k arbitrary: t w)
  case 0
  then have "read_rets w = [] @ read_rets w1 \<and> mOutStream w1 = mOutStream w @ concat (map read_buffer [])"
    by simp
  then show ?case by blast
next
  case (Suc k)
  then obtain t2 w2 where a: "thread_step t w = Some (t2, w2)"
    and b: "thread_steps k t2 w2 = Some (t1, w1)"
    by (auto split: option.splits)
  from thread_step_out [OF a] obtain c where
    c: "read_rets w = c @ read_rets w2" "mOutStream w2 = mOutStream w @ concat (map read_buffer c)"
    by blast
  from Suc.IH [OF b] obtain c' where
    c': "read_rets w2 = c' @ read_rets w1" "mOutStream w1 = mOutStream w2 @ concat (map read_buffer c')"
    by blast
  from c c' have "read_rets w = (c @ c') @ read_rets w1 \<and>
      mOutStream w1 = mOutStream w @ concat (map read_buffer (c @ c'))"
    by simp
  then show ?case by blast
qed

lemma PipeRelay_delete_parts:
  assumes "mThread this = Some t" and "PipeRelay_delete k this w = Some (this1, w1)"
  shows "\<exists>t1 wa m t3 w3.
           thread_steps k t (snd (CloseFd (mFds1 this) w)) = Some (t1, wa) \<and>
           thread_steps m (t1\<lparr>mFinished := True\<rparr>) (log StoreFinished wa) = Some (t3, w3) \<and>
           \<not> running t3 \<and>
           w1 = snd (CloseFd (mFds0 this) (log ThreadJoin w3)) \<and>
           this1 = this\<lparr>mFds0 := fst (CloseFd (mFds0 this) (log ThreadJoin w3)),
                         mFds1 := fst (CloseFd (mFds1 this) w), mThread := None\<rparr>"
proof -
  from assms obtain t1 wa t3 w3 where
    s: "thread_steps k t (snd (CloseFd (mFds1 this) w)) = Some (t1, wa)"
    and r: "run_thread (t1\<lparr>mFinished := True\<rparr>) (log StoreFinished wa) = Some (t3, w3)"
    and w1: "w1 = snd (CloseFd (mFds0 this) (log ThreadJoin w3))"
    and this1: "this1 = this\<lparr>mFds0 := fst (CloseFd (mFds0 this) (log ThreadJoin w3)),
                         mFds1 := fst (CloseFd (mFds1 this) w), mThread := None\<rparr>"
    by (auto simp: PipeRelay_delete_thread split: option.splits)
  from run_thread_steps [OF r] obtain m where
    "thread_steps m (t1\<lparr>mFinished := True\<rparr>) (log StoreFinished wa) = Some (t3, w3)" "\<not> running t3"
    by blast
  with s w1 this1 show ?thesis by blast
qed

lemma PipeRelay_delete_out:
  assumes "PipeRelay_delete k this w = Some (this1, w1)"
  shows "\<exists>c. read_rets w = c @ read_rets w1 \<and> mOutStream w1 = mOutStream w @ concat (map read_buffer c)"
proof (cases "mThread this")
  case None
  with assms have "read_rets w = [] @ read_rets w1 \<and> mOutStream w1 = mOutStream w @ concat (map read_buffer [])"
    by (auto simp: PipeRelay_delete_null)
  then show ?thesis by blast
next
  case (Some t)
  from PipeRelay_delete_parts [OF Some assms] obtain t1 wa m t3 w3 where
    s: "thread_steps k t (snd (CloseFd (mFds1 this) w)) = Some (t1, wa)"
    and r: "thread_steps m (t1\<lparr>mFinished := True\<rparr>) (log StoreFinished wa) = Some (t3, w3)"
    and w1: "w1 = snd (CloseFd (mFds0 this) (log ThreadJoin w3))"
    by blast
  from thread_steps_out [OF s] obtain c where
    c: "read_rets w = c @ read_rets wa" "mOutStream wa = mOutStream w @ concat (map read_buffer c)"
    by auto
  from thread_steps_out [OF r] obtain c' where
    c': "read_rets wa = c' @ read_rets w3" "mOutStream w3 = mOutStream wa @ concat (map read_buffer c')"
    by auto
  from c c' w1 have "read_rets w = (c @ c') @ read_rets w1 \<and>
      mOutStream w1 = mOutStream w @ concat (map read_buffer (c @ c'))"
    by simp
  then show ?thesis by blast
qed

lemma PipeRelay_delete_err:
  assumes "mThread this = Some t" and "PipeRelay_delete k this w = Some (this1, w1)"
  shows "mErrStream w1 = mErrStream w \<or>
         (running t \<and> (\<exists>d\<in>set (diagnostics t). mErrStream w1 = mErrStream (err_put d w)))"
proof -
  from PipeRelay_delete_parts [OF assms] obtain t1 wa m t3 w3 where
    s: "thread_steps k t (snd (CloseFd (mFds1 this) w)) = Some (t1, wa)"
    and r: "thread_steps m (t1\<lparr>mFinished := True\<rparr>) (log StoreFinished wa) = Some (t3, w3)"
    and w1: "w1 = snd (CloseFd (mFds0 this) (log ThreadJoin w3))"
    by blast
  show ?thesis
  proof (cases "running t")
    case False
    with s have a: "t1 = t" "wa = snd (CloseFd (mFds1 this) w)"
      by (simp_all add: thread_steps_not_running)
    from False have "\<not> running (t\<lparr>mFinished := True\<rparr>)" by (simp add: running_def)
    with r a have "w3 = log StoreFinished wa"
      by (simp add: thread_steps_not_running)
    with a w1 show ?thesis by simp
  next
    case True
    have d: "diagnostics (t1\<lparr>mFinished := True\<rparr>) = diagnostics t"
      using thread_steps_fields [OF s] by (simp add: diagnostics_def)
    from thread_steps_err [OF s] show ?thesis
    proof
      assume e: "mErrStream wa = mErrStream (snd (CloseFd (mFds1 this) w))"
      from thread_steps_err [OF r] e d w1 True show ?thesis
        by auto
    next
      assume e: "\<not> running t1 \<and>
        (\<exists>d\<in>set (diagnostics t). mErrStream wa = mErrStream (err_put d (snd (CloseFd (mFds1 this) w))))"
      then have "\<not> running (t1\<lparr>mFinished := True\<rparr>)" by (simp add: running_def)
      with r have "w3 = log StoreFinished wa"
        by (simp add: thread_steps_not_running)
      with e w1 True show ?thesis by auto
    qed
  qed
qed

lemma threadLoop_body_trace:
  "threadLoop_body t sr w = Some (again, w1) \<Longrightarrow>
     trace w1 = trace w @
       (if select_res sr < 0 then []
        else if select_res sr = 0 \<or> \<not> FD_ISSET sr then [LoadFinished]
        else [SysRead (mFd t) sizeof_buffer])"
proof -
  assume a: "threadLoop_body t sr w = Some (again, w1)"
  consider (fail) "select_res sr < 0"
    | (timeout) "0 \<le> select_res sr" "select_res sr = 0 \<or> \<not> FD_ISSET sr"
    | (ready) "0 < select_res sr" "FD_ISSET sr"
    by fastforce
  then show ?thesis
  proof cases
    case fail
    with a show ?thesis by (auto simp: threadLoop_body_fail)
  next
    case timeout
    with a show ?thesis by (auto simp: threadLoop_body_timeout split: if_splits)
  next
    case ready
    with a show ?thesis
      by (auto simp: threadLoop_body_ready split: option.splits read_ret.splits if_splits
               dest!: threadLoop_read_frame)
  qed
qed

lemma thread_step_trace:
  assumes "thread_step t w = Some (t1, w1)"
  shows "\<exists>ws. trace w1 = trace w @ ws \<and> (\<forall>a\<in>set ws. worker_action t a) \<and>
           (running t \<and> \<not> running t1 \<longrightarrow> ws \<noteq> [] \<and> last ws = ThreadExit) \<and>
           (\<not> running t \<longrightarrow> ws = []) \<and>
           (pc t = LoopTop \<longrightarrow> ws = [SysSelect (mFd t) READ_TIMEOUT])"
proof (cases "pc t")
  case NotStarted
  with assms have "trace w1 = trace w @ []" by (simp add: thread_step_def)
  with NotStarted show ?thesis by (simp add: running_def)
next
  case LoopTop
  with assms obtain sr where "threadLoop_select t w = Some (sr, w1)" "t1 = t\<lparr>pc := AfterSelect sr\<rparr>"
    by (auto simp: thread_step_def split: option.splits)
  with threadLoop_select_frame [of t w sr w1] LoopTop show ?thesis
    by (simp add: running_def worker_action_def)
next
  case (AfterSelect sr)
  with assms obtain again w0 where b: "threadLoop_body t sr w = Some (again, w0)"
    and c: "if again then t1 = t\<lparr>pc := LoopTop\<rparr> \<and> w1 = w0
            else t1 = t\<lparr>pc := Exited\<rparr> \<and> w1 = log ThreadExit w0"
    by (auto simp: thread_step_def split: option.splits if_splits)
  from threadLoop_body_trace [OF b] obtain ws0 where
    ws0: "trace w0 = trace w @ ws0" "\<forall>a\<in>set ws0. worker_action t a"
    by (auto simp: worker_action_def)
  show ?thesis
  proof (cases again)
    case True
    with c ws0 AfterSelect show ?thesis by (auto simp: running_def)
  next
    case False
    with c ws0 have "trace w1 = trace w @ (ws0 @ [ThreadExit])"
      "\<forall>a\<in>set (ws0 @ [ThreadExit]). worker_action t a"
      by (auto simp: worker_action_def)
    with AfterSelect show ?thesis
      by (intro exI [of _ "ws0 @ [ThreadExit]"]) (simp add: running_def)
  qed
next
  case Exited
  with assms have "trace w1 = trace w @ []" by (simp add: thread_step_def)
  with Exited show ?thesis by (simp add: running_def)
qed

lemma run_thread_fields:
  "run_thread t w = Some (t1, w1) \<Longrightarrow>
     mFd t1 = mFd t \<and> mFinished t1 = mFinished t \<and> mFqName t1 = mFqName t"
  using run_thread_steps [of t w t1 w1] thread_steps_fields [of _ t w t1 w1] by blast

lemma system_run_snoc:
  "system_run (xs @ [x]) s =
     (case system_run xs s of None \<Rightarrow> None | Some s1 \<Rightarrow> system_step x s1)"
  by (induction xs arbitrary: s) (auto split: option.splits)

lemma destruction_state_init: "mThread this = Some t \<Longrightarrow> destruction_state t this w [] [] [] (Line138, this, w)"
  by (simp add: destruction_state_def)

lemma destruction_state_owner:
  assumes "destruction_state t this w wa wb wc (p, this1, w1)"
  shows "\<exists>wa wb wc. destruction_state t this w wa wb wc (delete_step p this1 w1)"
proof (cases p)
  case Line138
  with assms have "destruction_state t this w wa [] [] (delete_step p this1 w1)"
    by (auto simp: destruction_state_def delete_step_def CloseFd_def split: option.splits)
  then show ?thesis by blast
next
  case Line140
  with assms have "destruction_state t this w wa wb [] (delete_step p this1 w1)"
    by (auto simp: destruction_state_def delete_step_def setFinished_def running_def split: option.splits)
  then show ?thesis by blast
next
  case Line142
  with assms have "destruction_state t this w wa wb wc (delete_step p this1 w1)"
    by (auto simp: destruction_state_def delete_step_def split: option.splits)
  then show ?thesis by blast
next
  case Line143
  with assms have "destruction_state t this w wa wb wc (delete_step p this1 w1)"
    by (auto simp: destruction_state_def delete_step_def split: option.splits)
  then show ?thesis by blast
next
  case Line146
  with assms have "destruction_state t this w wa wb wc (delete_step p this1 w1)"
    by (auto simp: destruction_state_def delete_step_def CloseFd_def split: option.splits)
  then show ?thesis by blast
next
  case Returned
  with assms have "destruction_state t this w wa wb wc (delete_step p this1 w1)"
    by (auto simp: destruction_state_def delete_step_def split: option.splits)
  then show ?thesis by blast
qed


lemma worker_tick:
  assumes "system_step Worker (p, this1, w1) = Some s'"
  shows "(mThread this1 = None \<and> s' = (p, this1, w1)) \<or>
         (\<exists>t1 t2 w2. mThread this1 = Some t1 \<and> thread_step t1 w1 = Some (t2, w2) \<and>
            s' = (p, this1\<lparr>mThread := Some t2\<rparr>, w2))"
  using assms
  by (auto simp: system_step_def worker_moves_def split: option.splits)

lemma destruction_state_worker:
  assumes inv: "destruction_state t this w wa wb wc (p, this1, w1)"
    and step: "system_step Worker (p, this1, w1) = Some s'"
  shows "\<exists>wa wb wc. destruction_state t this w wa wb wc s'"
proof -
  from worker_tick [OF step] show ?thesis
  proof
    assume "mThread this1 = None \<and> s' = (p, this1, w1)"
    with inv show ?thesis by blast
  next
    assume "\<exists>t1 t2 w2. mThread this1 = Some t1 \<and> thread_step t1 w1 = Some (t2, w2) \<and>
            s' = (p, this1\<lparr>mThread := Some t2\<rparr>, w2)"
    then obtain t1 t2 w2 where t1: "mThread this1 = Some t1"
      and ts: "thread_step t1 w1 = Some (t2, w2)"
      and s': "s' = (p, this1\<lparr>mThread := Some t2\<rparr>, w2)"
      by blast
    from thread_step_trace [OF ts] obtain ws where
      ws: "trace w2 = trace w1 @ ws" "\<forall>a\<in>set ws. worker_action t1 a"
        "running t1 \<and> \<not> running t2 \<longrightarrow> ws \<noteq> [] \<and> last ws = ThreadExit"
        "\<not> running t1 \<longrightarrow> ws = []"
      by blast
    from thread_step_fields [OF ts] have f: "mFd t2 = mFd t1" "mFinished t2 = mFinished t1"
      "mFqName t2 = mFqName t1"
      by simp_all
    have nr: "\<not> running t1 \<Longrightarrow> t2 = t1"
      using ts by (simp add: thread_step_not_running)
    from inv t1 have fd: "mFd t1 = mFd t"
      by (simp add: destruction_state_def)
    with ws(2) have wa: "\<forall>a\<in>set ws. worker_action t a"
      by (simp add: worker_action_def)
    show ?thesis
    proof (cases p)
      case Line138
      with inv t1 s' ws(1,3,4) wa f nr have "destruction_state t this w (wa @ ws) [] [] s'"
        by (auto simp: destruction_state_def)
      then show ?thesis by blast
    next
      case Line140
      with inv t1 s' ws(1,3,4) wa f nr have "destruction_state t this w wa (wb @ ws) [] s'"
        by (auto simp: destruction_state_def)
      then show ?thesis by blast
    next
      case Line142
      with inv t1 s' ws(1,3,4) wa f nr have "destruction_state t this w wa wb (wc @ ws) s'"
        by (auto simp: destruction_state_def)
      then show ?thesis by blast
    next
      case Line143
      with inv t1 have "\<not> running t1" by (simp add: destruction_state_def)
      with nr ws(4) ws(1) s' t1 have "s' = (p, this1, w2)" "trace w2 = trace w1" by simp_all
      with inv Line143 have "destruction_state t this w wa wb wc s'"
        by (auto simp: destruction_state_def)
      then show ?thesis by blast
    next
      case Line146
      with inv t1 show ?thesis by (simp add: destruction_state_def)
    next
      case Returned
      with inv t1 show ?thesis by (simp add: destruction_state_def)
    qed
  qed
qed

lemma destruction_state_run:
  assumes "mThread this = Some t"
  shows "system_run sched (Line138, this, w) = Some s \<Longrightarrow> \<exists>wa wb wc. destruction_state t this w wa wb wc s"
proof (induction sched arbitrary: s rule: rev_induct)
  case Nil
  with destruction_state_init [OF assms, of w] show ?case by auto
next
  case (snoc x xs)
  from snoc.prems obtain s1 where r: "system_run xs (Line138, this, w) = Some s1"
    and st: "system_step x s1 = Some s"
    by (auto simp: system_run_snoc split: option.splits)
  from snoc.IH [OF r] obtain wa wb wc where i: "destruction_state t this w wa wb wc s1"
    by blast
  obtain p this1 w1 where s1: "s1 = (p, this1, w1)"
    by (cases s1) auto
  show ?case
  proof (cases x)
    case Owner
    with st s1 have "s = delete_step p this1 w1"
      by (simp add: system_step_def)
    with destruction_state_owner [of t this w wa wb wc p this1 w1] i s1 show ?thesis
      by simp
  next
    case Worker
    with destruction_state_worker [of t this w wa wb wc p this1 w1 s] i s1 st show ?thesis
      by simp
  qed
qed


lemma system_run_append:
  "system_run (xs @ ys) s =
     (case system_run xs s of None \<Rightarrow> None | Some s1 \<Rightarrow> system_run ys s1)"
  by (induction xs arbitrary: s) (auto split: option.splits)

lemma system_run_workers:
  "mThread this = Some t \<Longrightarrow> thread_steps k t w = Some (t1, w1) \<Longrightarrow>
     system_run (replicate k Worker) (p, this, w) = Some (p, this\<lparr>mThread := Some t1\<rparr>, w1)"
proof (induction k arbitrary: this t w)
  case 0
  then show ?case by simp
next
  case (Suc k)
  from Suc.prems(2) obtain t2 w2 where a: "thread_step t w = Some (t2, w2)"
    and b: "thread_steps k t2 w2 = Some (t1, w1)"
    by (auto split: option.splits)
  from a Suc.prems(1) have
    "system_step Worker (p, this, w) = Some (p, this\<lparr>mThread := Some t2\<rparr>, w2)"
    by (simp add: system_step_def worker_moves_def)
  moreover from Suc.IH [of "this\<lparr>mThread := Some t2\<rparr>" t2 w2] b have
    "system_run (replicate k Worker) (p, this\<lparr>mThread := Some t2\<rparr>, w2) =
       Some (p, this\<lparr>mThread := Some t1\<rparr>, w1)"
    by simp
  ultimately show ?case by simp
qed

text \<open>
  The destructor in one piece is one schedule of the destructor statement by statement:
  the owner's first statement, \<open>k\<close> moves of the worker, the store to the flag, the
  moves of the worker up to its exit, and the last three statements of the owner.
\<close>

lemma PipeRelay_delete_is_run:
  assumes "PipeRelay_delete k this w = Some (this1, w1)"
  shows "\<exists>sched. system_run sched (Line138, this, w) = Some (Returned, this1, w1)"
proof (cases "mThread this")
  case None
  with assms have "system_run [Owner, Owner, Owner] (Line138, this, w) = Some (Returned, this1, w1)"
    by (auto simp: PipeRelay_delete_def system_step_def delete_step_def split_beta)
  then show ?thesis by blast
next
  case (Some t)
  from PipeRelay_delete_parts [OF Some assms] obtain t1 wa m t3 w3 where
    s: "thread_steps k t (snd (CloseFd (mFds1 this) w)) = Some (t1, wa)"
    and r: "thread_steps m (t1\<lparr>mFinished := True\<rparr>) (log StoreFinished wa) = Some (t3, w3)"
    and n: "\<not> running t3"
    and w1: "w1 = snd (CloseFd (mFds0 this) (log ThreadJoin w3))"
    and this1: "this1 = this\<lparr>mFds0 := fst (CloseFd (mFds0 this) (log ThreadJoin w3)),
                  mFds1 := fst (CloseFd (mFds1 this) w), mThread := None\<rparr>"
    by blast
  let ?a = "this\<lparr>mFds1 := fst (CloseFd (mFds1 this) w)\<rparr>"
  have 1: "system_run [Owner] (Line138, this, w) = Some (Line140, ?a, snd (CloseFd (mFds1 this) w))"
    by (simp add: system_step_def delete_step_def split_beta)
  have 2: "system_run (replicate k Worker) (Line140, ?a, snd (CloseFd (mFds1 this) w)) =
      Some (Line140, ?a\<lparr>mThread := Some t1\<rparr>, wa)"
    using system_run_workers [of ?a t k "snd (CloseFd (mFds1 this) w)" t1 wa Line140] Some s
    by simp
  have 3: "system_run [Owner] (Line140, ?a\<lparr>mThread := Some t1\<rparr>, wa) =
      Some (Line142, ?a\<lparr>mThread := Some (t1\<lparr>mFinished := True\<rparr>)\<rparr>, log StoreFinished wa)"
    by (simp add: system_step_def delete_step_def setFinished_def)
  have 4: "system_run (replicate m Worker)
        (Line142, ?a\<lparr>mThread := Some (t1\<lparr>mFinished := True\<rparr>)\<rparr>, log StoreFinished wa) =
      Some (Line142, ?a\<lparr>mThread := Some t3\<rparr>, w3)"
    using system_run_workers [of "?a\<lparr>mThread := Some (t1\<lparr>mFinished := True\<rparr>)\<rparr>"
        "t1\<lparr>mFinished := True\<rparr>" m "log StoreFinished wa" t3 w3 Line142] r
    by simp
  have 5: "system_run [Owner, Owner, Owner] (Line142, ?a\<lparr>mThread := Some t3\<rparr>, w3) =
      Some (Returned, this1, w1)"
    using n by (simp add: system_step_def delete_step_def split_beta this1 w1)
  have "system_run ([Owner] @ replicate k Worker @ [Owner] @ replicate m Worker @
          [Owner, Owner, Owner]) (Line138, this, w) = Some (Returned, this1, w1)"
    by (simp only: system_run_append 1 2 3 4 5 option.case)
  then show ?thesis by blast
qed

subsection \<open>What is read is what is written\<close>

text \<open>
  C1: every read of one byte or more is appended to the output stream as it is, and the
  loop goes on whatever the flag \<open>mFinished\<close> holds. When the wait reports the read end
  ready and the read returns the bytes \<open>bs\<close>, not empty, \<open>threadLoop\<close> returns true
  and the output stream has grown by exactly \<open>bs\<close>; the thread is at the top of its
  loop again. Over any number of moves of the thread, and over the destructor, the
  output stream grows by the concatenation, in order, of the bytes of the answers of
  \<open>read\<close> taken (a failed read and the end of the stream bring no bytes).
\<close>

theorem relay_appends_reads:
  "(select_rets w = replicate j (SelectFail EINTR) @ SelectOk (Suc n) True # srest \<and>
    read_rets w = replicate i (ReadFail EINTR) @ ReadOk bs # rrest \<and>
    bs \<noteq> [] \<and> length bs \<le> sizeof_buffer \<longrightarrow>
      threadLoop t w =
        Some (True, w\<lparr>select_rets := srest, read_rets := rrest,
                trace := trace w @ [SysSelect (mFd t) READ_TIMEOUT, SysRead (mFd t) sizeof_buffer],
                mOutStream := mOutStream w @ bs\<rparr>) \<and>
      (pc t = LoopTop \<longrightarrow>
         thread_steps 2 t w =
           Some (t, w\<lparr>select_rets := srest, read_rets := rrest,
                trace := trace w @ [SysSelect (mFd t) READ_TIMEOUT, SysRead (mFd t) sizeof_buffer],
                mOutStream := mOutStream w @ bs\<rparr>))) \<and>
   (thread_steps k t w = Some (t1, w1) \<longrightarrow>
      (\<exists>c. read_rets w = c @ read_rets w1 \<and>
           mOutStream w1 = mOutStream w @ concat (map read_buffer c))) \<and>
   (PipeRelay_delete m this w = Some (this2, w2) \<longrightarrow>
      (\<exists>c. read_rets w = c @ read_rets w2 \<and>
           mOutStream w2 = mOutStream w @ concat (map read_buffer c)))"
proof (intro conjI impI)
  assume a: "select_rets w = replicate j (SelectFail EINTR) @ SelectOk (Suc n) True # srest \<and>
    read_rets w = replicate i (ReadFail EINTR) @ ReadOk bs # rrest \<and>
    bs \<noteq> [] \<and> length bs \<le> sizeof_buffer"
  then show b: "threadLoop t w =
        Some (True, w\<lparr>select_rets := srest, read_rets := rrest,
                trace := trace w @ [SysSelect (mFd t) READ_TIMEOUT, SysRead (mFd t) sizeof_buffer],
                mOutStream := mOutStream w @ bs\<rparr>)"
    using threadLoop_ready [of w j n srest i "ReadOk bs" rrest t] by simp
  assume "pc t = LoopTop"
  from threadLoop_steps [OF this b] this
  show "thread_steps 2 t w =
           Some (t, w\<lparr>select_rets := srest, read_rets := rrest,
                trace := trace w @ [SysSelect (mFd t) READ_TIMEOUT, SysRead (mFd t) sizeof_buffer],
                mOutStream := mOutStream w @ bs\<rparr>)"
    by simp
next
  assume "thread_steps k t w = Some (t1, w1)"
  then show "\<exists>c. read_rets w = c @ read_rets w1 \<and>
           mOutStream w1 = mOutStream w @ concat (map read_buffer c)"
    by (rule thread_steps_out)
next
  assume "PipeRelay_delete m this w = Some (this2, w2)"
  then show "\<exists>c. read_rets w = c @ read_rets w2 \<and>
           mOutStream w2 = mOutStream w @ concat (map read_buffer c)"
    by (rule PipeRelay_delete_out)
qed

theorem relay_appends_reads_witness:
  "threadLoop (RelayThread_new 3 ''a/b'')
     (world_init (Some []) [SelectOk 1 True, SelectOk 1 True, SelectOk 1 True]
        [ReadOk ''hello '', ReadOk ''world'', ReadOk []]) =
   Some (True,
     \<lparr>mOutStream = ''hello '', mErrStream = Some [],
      trace = [SysSelect 3 READ_TIMEOUT, SysRead 3 sizeof_buffer],
      select_rets = [SelectOk 1 True, SelectOk 1 True],
      read_rets = [ReadOk ''world'', ReadOk []]\<rparr>) \<and>
   thread_steps 6 ((RelayThread_new 3 ''a/b'')\<lparr>pc := LoopTop\<rparr>)
     (world_init (Some []) [SelectOk 1 True, SelectOk 1 True, SelectOk 1 True]
        [ReadOk ''hello '', ReadOk ''world'', ReadOk []]) =
   Some ((RelayThread_new 3 ''a/b'')\<lparr>pc := Exited\<rparr>,
     \<lparr>mOutStream = ''hello world'', mErrStream = Some [],
      trace = [SysSelect 3 READ_TIMEOUT, SysRead 3 sizeof_buffer,
               SysSelect 3 READ_TIMEOUT, SysRead 3 sizeof_buffer,
               SysSelect 3 READ_TIMEOUT, SysRead 3 sizeof_buffer, ThreadExit],
      select_rets = [], read_rets = []\<rparr>)"
  using relay_appends_reads [where w = "world_init (Some []) [SelectOk 1 True, SelectOk 1 True, SelectOk 1 True]
        [ReadOk ''hello '', ReadOk ''world'', ReadOk []]" and j = 0 and n = 0 and i = 0
      and bs = "''hello ''" and srest = "[SelectOk 1 True, SelectOk 1 True]"
      and rrest = "[ReadOk ''world'', ReadOk []]" and t = "RelayThread_new 3 ''a/b''"]
  by (simp add: world_init_def RelayThread_new_def sizeof_buffer_def eval_nat_numeral
        thread_step_def threadLoop_select_def threadLoop_body_def threadLoop_read_def
        log_def out_write_def Let_def)

subsection \<open>The order of destruction\<close>

text \<open>
  C2: the destructor closes the write end, then sets the flag, then waits for the
  worker, and closes the read end only after that. Take a relay with a thread object,
  the owner entering the destructor, and any schedule of moves of the owner and of the
  worker; the owner need not have returned, nor the worker exited. Then, with the
  owner at line \<open>p\<close>, what has been added to the log is, in this order: calls of the
  worker; from line 140 on the close of \<open>mFds[1]\<close> (when the slot held a descriptor)
  and more calls of the worker; from line 142 on the store to \<open>mFinished\<close> and more
  calls of the worker; from line 143 on the return of \<open>join\<close>, with no call of the
  worker after it; and at the return of the destructor the close of \<open>mFds[0]\<close> (when
  the slot held a descriptor), last. Before line 141 the flag is what it was; after
  it, while the thread object is there, the flag is true. Once \<open>join\<close> has returned
  the thread is not running: if it was running at the start its calls end with its
  exit, and if it was not it has made none. So the read end is closed only after the
  worker has exited, and no wait and no read of the worker follows that close.
\<close>

theorem destruction_order:
  assumes "mThread this = Some t"
    and "system_run sched (Line138, this, w) = Some (p, this1, w1)"
  shows "\<exists>wa wb wc.
     (\<forall>a\<in>set (wa @ wb @ wc). worker_action t a) \<and>
     trace w1 = trace w @
       (case p of
          Line138 \<Rightarrow> wa
        | Line140 \<Rightarrow> wa @ (if 0 \<le> mFds1 this then [SysClose (mFds1 this)] else []) @ wb
        | Line142 \<Rightarrow> wa @ (if 0 \<le> mFds1 this then [SysClose (mFds1 this)] else []) @ wb @
                      StoreFinished # wc
        | Line143 \<Rightarrow> wa @ (if 0 \<le> mFds1 this then [SysClose (mFds1 this)] else []) @ wb @
                      StoreFinished # wc @ [ThreadJoin]
        | Line146 \<Rightarrow> wa @ (if 0 \<le> mFds1 this then [SysClose (mFds1 this)] else []) @ wb @
                      StoreFinished # wc @ [ThreadJoin]
        | Returned \<Rightarrow> wa @ (if 0 \<le> mFds1 this then [SysClose (mFds1 this)] else []) @ wb @
                      StoreFinished # wc @ ThreadJoin #
                      (if 0 \<le> mFds0 this then [SysClose (mFds0 this)] else [])) \<and>
     (p = Line138 \<or> p = Line140 \<longrightarrow>
        (\<exists>t1. mThread this1 = Some t1 \<and> mFinished t1 = mFinished t)) \<and>
     (p = Line142 \<or> p = Line143 \<longrightarrow>
        (\<exists>t1. mThread this1 = Some t1 \<and> mFinished t1 \<and> (p = Line143 \<longrightarrow> \<not> running t1))) \<and>
     (p = Line143 \<or> p = Line146 \<or> p = Returned \<longrightarrow>
        (if running t then wa @ wb @ wc \<noteq> [] \<and> last (wa @ wb @ wc) = ThreadExit
         else wa @ wb @ wc = []))"
proof -
  from destruction_state_run [OF assms] obtain wa wb wc where i: "destruction_state t this w wa wb wc (p, this1, w1)"
    by blast
  have "(\<forall>a\<in>set (wa @ wb @ wc). worker_action t a) \<and>
     trace w1 = trace w @
       (case p of
          Line138 \<Rightarrow> wa
        | Line140 \<Rightarrow> wa @ (if 0 \<le> mFds1 this then [SysClose (mFds1 this)] else []) @ wb
        | Line142 \<Rightarrow> wa @ (if 0 \<le> mFds1 this then [SysClose (mFds1 this)] else []) @ wb @
                      StoreFinished # wc
        | Line143 \<Rightarrow> wa @ (if 0 \<le> mFds1 this then [SysClose (mFds1 this)] else []) @ wb @
                      StoreFinished # wc @ [ThreadJoin]
        | Line146 \<Rightarrow> wa @ (if 0 \<le> mFds1 this then [SysClose (mFds1 this)] else []) @ wb @
                      StoreFinished # wc @ [ThreadJoin]
        | Returned \<Rightarrow> wa @ (if 0 \<le> mFds1 this then [SysClose (mFds1 this)] else []) @ wb @
                      StoreFinished # wc @ ThreadJoin #
                      (if 0 \<le> mFds0 this then [SysClose (mFds0 this)] else [])) \<and>
     (p = Line138 \<or> p = Line140 \<longrightarrow>
        (\<exists>t1. mThread this1 = Some t1 \<and> mFinished t1 = mFinished t)) \<and>
     (p = Line142 \<or> p = Line143 \<longrightarrow>
        (\<exists>t1. mThread this1 = Some t1 \<and> mFinished t1 \<and> (p = Line143 \<longrightarrow> \<not> running t1))) \<and>
     (p = Line143 \<or> p = Line146 \<or> p = Returned \<longrightarrow>
        (if running t then wa @ wb @ wc \<noteq> [] \<and> last (wa @ wb @ wc) = ThreadExit
         else wa @ wb @ wc = []))"
  proof (cases "mThread this1")
    case None
    with i show ?thesis
      by (cases p) (auto simp: destruction_state_def split: if_splits)
  next
    case (Some t1)
    with i show ?thesis
      by (cases p) (auto simp: destruction_state_def split: if_splits)
  qed
  then show ?thesis by blast
qed

theorem destruction_order_witness:
  "system_run [Owner, Worker, Worker, Owner, Owner, Owner, Owner]
     (Line138,
      \<lparr>mInitCheck = OK, mFds0 = 3, mFds1 = 4,
        mThread = Some \<lparr>mFd = 3, mFinished = False, mFqName = ''a.b/c'', pc = LoopTop\<rparr>\<rparr>,
      world_init (Some []) [SelectOk 1 True] [ReadOk []]) =
   Some (Returned, \<lparr>mInitCheck = OK, mFds0 = - 1, mFds1 = - 1, mThread = None\<rparr>,
     \<lparr>mOutStream = [], mErrStream = Some [],
      trace = [SysClose 4, SysSelect 3 READ_TIMEOUT, SysRead 3 sizeof_buffer, ThreadExit,
               StoreFinished, ThreadJoin, SysClose 3],
      select_rets = [], read_rets = []\<rparr>) \<and>
   system_run [Owner, Worker, Owner, Owner]
     (Line138,
      \<lparr>mInitCheck = OK, mFds0 = 3, mFds1 = 4,
        mThread = Some \<lparr>mFd = 3, mFinished = False, mFqName = ''a.b/c'', pc = LoopTop\<rparr>\<rparr>,
      world_init (Some []) [SelectOk 1 True, SelectOk 1 True] [ReadOk ''x'', ReadOk ''y'']) =
   Some (Line142,
     \<lparr>mInitCheck = OK, mFds0 = 3, mFds1 = - 1,
       mThread = Some \<lparr>mFd = 3, mFinished = True, mFqName = ''a.b/c'',
                        pc = AfterSelect (SelectOk 1 True)\<rparr>\<rparr>,
     \<lparr>mOutStream = [], mErrStream = Some [],
      trace = [SysClose 4, SysSelect 3 READ_TIMEOUT, StoreFinished],
      select_rets = [SelectOk 1 True], read_rets = [ReadOk ''x'', ReadOk ''y'']\<rparr>)"
  using destruction_order [where sched = "[Owner, Worker, Worker, Owner, Owner, Owner, Owner]"
      and this = "\<lparr>mInitCheck = OK, mFds0 = 3, mFds1 = 4,
        mThread = Some \<lparr>mFd = 3, mFinished = False, mFqName = ''a.b/c'', pc = LoopTop\<rparr>\<rparr>"
      and t = "\<lparr>mFd = 3, mFinished = False, mFqName = ''a.b/c'', pc = LoopTop\<rparr>"
      and w = "world_init (Some []) [SelectOk 1 True] [ReadOk []]"]
    destruction_order [where sched = "[Owner, Worker, Owner, Owner]"
      and this = "\<lparr>mInitCheck = OK, mFds0 = 3, mFds1 = 4,
        mThread = Some \<lparr>mFd = 3, mFinished = False, mFqName = ''a.b/c'', pc = LoopTop\<rparr>\<rparr>"
      and t = "\<lparr>mFd = 3, mFinished = False, mFqName = ''a.b/c'', pc = LoopTop\<rparr>"
      and w = "world_init (Some []) [SelectOk 1 True, SelectOk 1 True] [ReadOk ''x'', ReadOk ''y'']"]
  by (simp add: system_step_def delete_step_def worker_moves_def CloseFd_def setFinished_def
        world_init_def running_def thread_step_def threadLoop_select_def threadLoop_body_def
        threadLoop_read_def log_def sizeof_buffer_def Let_def)

subsection \<open>When the flag is looked at\<close>

text \<open>
  C3: the code does not keep what the claim promises. \<open>threadLoop\<close> looks at the flag
  after the wait (line 85), and nothing ties that look to the wait that came before
  it. A relay is made; the worker waits and its \<open>select\<close> returns 0 with the flag
  still false (line 78); bytes then arrive in the pipe (the read \<open>ReadOk ''late''\<close>
  they would give is pending); the owner enters the destructor, closes the write end
  and stores the flag; the worker goes on at line 84, finds the flag set at line 85,
  puts the truncation message and exits; the owner's \<open>join\<close> returns and the read end
  is closed. Between the store to the flag and the exit of the thread the log shows no
  \<open>select\<close>: the worker has completed no wait after the flag was set, the bytes are
  never read and the output stream is empty, against the comment at lines 51-54
  (``we ensure that select() and read() are executed until data are drained'').
\<close>

theorem finished_set_after_timeout_drops_data:
  "system_run [Worker, Owner, Owner, Worker, Owner, Owner, Owner]
     (Line138,
      fst (PipeRelay_new (- 1) (- 1) ''a.b'' ''c'' (PipeOk 3 4) OK
             (world_init (Some []) [SelectOk 0 False] [ReadOk ''late''])),
      snd (PipeRelay_new (- 1) (- 1) ''a.b'' ''c'' (PipeOk 3 4) OK
             (world_init (Some []) [SelectOk 0 False] [ReadOk ''late'']))) =
   Some (Returned, \<lparr>mInitCheck = OK, mFds0 = - 1, mFds1 = - 1, mThread = None\<rparr>,
     \<lparr>mOutStream = [],
      mErrStream = Some ''debug a.b/c: timeout reading from pipe, output may be truncated.'',
      trace = [ThreadRun ''RelayThread_b_c'', SysSelect 3 READ_TIMEOUT, SysClose 4,
               StoreFinished, LoadFinished, ThreadExit, ThreadJoin, SysClose 3],
      select_rets = [], read_rets = [ReadOk ''late'']\<rparr>)"
  by (simp add: PipeRelay_new_def Let_def run_def RelayThread_new_def getThreadName_def OK_def
        system_step_def delete_step_def worker_moves_def CloseFd_def setFinished_def
        world_init_def running_def thread_step_def threadLoop_select_def threadLoop_body_def
        log_def err_put_def)

subsection \<open>A wait that reports no data\<close>

text \<open>
  C4: when the wait returns with no descriptor ready (or without the read end among the
  ready ones), \<open>threadLoop\<close> looks at \<open>mFinished\<close>. If it is false the function
  returns true and neither stream has changed: the thread waits again. If it is true
  the function puts the one message
  \<open>debug <label>: timeout reading from pipe, output may be truncated.\<close> on the error
  stream and returns false: the thread exits, and an exited thread stays as it is. Over
  the whole life of a relay, any number of moves of the worker and then the
  destructor, the error stream receives nothing or exactly one of the three
  diagnostics; so it receives the truncation message at most once.
\<close>

theorem timeout_policy:
  "(select_rets w = replicate j (SelectFail EINTR) @ SelectOk n b # srest \<and> (n = 0 \<or> \<not> b) \<longrightarrow>
      (\<not> mFinished t \<longrightarrow>
         threadLoop t w =
           Some (True, w\<lparr>select_rets := srest,
                   trace := trace w @ [SysSelect (mFd t) READ_TIMEOUT, LoadFinished]\<rparr>)) \<and>
      (mFinished t \<longrightarrow>
         threadLoop t w =
           Some (False,
             err_put (''debug '' @ mFqName t @
                        '': timeout reading from pipe, output may be truncated.'')
               (w\<lparr>select_rets := srest,
                   trace := trace w @ [SysSelect (mFd t) READ_TIMEOUT, LoadFinished]\<rparr>)))) \<and>
   (pc t = LoopTop \<and> threadLoop t w = Some (again, w1) \<longrightarrow>
      thread_steps 2 t w =
        (if again then Some (t, w1) else Some (t\<lparr>pc := Exited\<rparr>, log ThreadExit w1))) \<and>
   thread_steps k (t\<lparr>pc := Exited\<rparr>) w = Some (t\<lparr>pc := Exited\<rparr>, w) \<and>
   (mThread this = Some t \<and> worker_moves k this w = Some (this1, w1) \<and>
    PipeRelay_delete m this1 w1 = Some (this2, w2) \<longrightarrow>
      mErrStream w2 = mErrStream w \<or>
      (\<exists>d\<in>set (diagnostics t). mErrStream w2 = mErrStream (err_put d w)))"
proof (intro conjI impI)
  assume a: "select_rets w = replicate j (SelectFail EINTR) @ SelectOk n b # srest \<and> (n = 0 \<or> \<not> b)"
  then have s: "threadLoop_select t w =
      Some (SelectOk n b, log (SysSelect (mFd t) READ_TIMEOUT) (w\<lparr>select_rets := srest\<rparr>))"
    by (simp add: threadLoop_select_skip)
  from a have c: "0 \<le> select_res (SelectOk n b)"
    "select_res (SelectOk n b) = 0 \<or> \<not> FD_ISSET (SelectOk n b)"
    by auto
  {
    assume "\<not> mFinished t"
    then show "threadLoop t w =
           Some (True, w\<lparr>select_rets := srest,
                   trace := trace w @ [SysSelect (mFd t) READ_TIMEOUT, LoadFinished]\<rparr>)"
      by (simp add: threadLoop_def s threadLoop_body_timeout [OF c] log_def)
  }
  {
    assume "mFinished t"
    then show "threadLoop t w =
           Some (False,
             err_put (''debug '' @ mFqName t @
                        '': timeout reading from pipe, output may be truncated.'')
               (w\<lparr>select_rets := srest,
                   trace := trace w @ [SysSelect (mFd t) READ_TIMEOUT, LoadFinished]\<rparr>))"
      by (simp add: threadLoop_def s threadLoop_body_timeout [OF c] log_def)
  }
next
  assume "pc t = LoopTop \<and> threadLoop t w = Some (again, w1)"
  then show "thread_steps 2 t w =
        (if again then Some (t, w1) else Some (t\<lparr>pc := Exited\<rparr>, log ThreadExit w1))"
    using threadLoop_steps [of t w again w1] by auto
next
  show "thread_steps k (t\<lparr>pc := Exited\<rparr>) w = Some (t\<lparr>pc := Exited\<rparr>, w)"
    by (rule thread_steps_not_running) (simp add: running_def)
next
  assume a: "mThread this = Some t \<and> worker_moves k this w = Some (this1, w1) \<and>
    PipeRelay_delete m this1 w1 = Some (this2, w2)"
  then obtain t1 where m: "thread_steps k t w = Some (t1, w1)" and t1: "mThread this1 = Some t1"
    by (auto simp: worker_moves_def split: option.splits)
  have d: "diagnostics t1 = diagnostics t"
    using thread_steps_fields [OF m] by (simp add: diagnostics_def)
  from a have del: "PipeRelay_delete m this1 w1 = Some (this2, w2)" by simp
  from thread_steps_err [OF m]
  show "mErrStream w2 = mErrStream w \<or>
      (\<exists>d\<in>set (diagnostics t). mErrStream w2 = mErrStream (err_put d w))"
  proof
    assume e: "mErrStream w1 = mErrStream w"
    from PipeRelay_delete_err [OF t1 del] e d show ?thesis
      by auto
  next
    assume e: "\<not> running t1 \<and> (\<exists>d\<in>set (diagnostics t). mErrStream w1 = mErrStream (err_put d w))"
    with PipeRelay_delete_err [OF t1 del] show ?thesis
      by auto
  qed
qed

theorem timeout_policy_witness:
  "threadLoop (RelayThread_new 3 ''a/b'') (world_init (Some []) [SelectOk 0 False] []) =
   Some (True,
     \<lparr>mOutStream = [], mErrStream = Some [],
      trace = [SysSelect 3 READ_TIMEOUT, LoadFinished], select_rets = [], read_rets = []\<rparr>) \<and>
   threadLoop ((RelayThread_new 3 ''a/b'')\<lparr>mFinished := True\<rparr>)
     (world_init (Some []) [SelectOk 0 False] []) =
   Some (False,
     \<lparr>mOutStream = [],
      mErrStream = Some ''debug a/b: timeout reading from pipe, output may be truncated.'',
      trace = [SysSelect 3 READ_TIMEOUT, LoadFinished], select_rets = [], read_rets = []\<rparr>) \<and>
   worker_moves 2
     \<lparr>mInitCheck = OK, mFds0 = 3, mFds1 = 4,
       mThread = Some \<lparr>mFd = 3, mFinished = False, mFqName = ''a/b'', pc = LoopTop\<rparr>\<rparr>
     (world_init (Some []) [SelectOk 1 True, SelectOk 0 False] [ReadOk ''partial'']) =
   Some (\<lparr>mInitCheck = OK, mFds0 = 3, mFds1 = 4,
           mThread = Some \<lparr>mFd = 3, mFinished = False, mFqName = ''a/b'', pc = LoopTop\<rparr>\<rparr>,
         \<lparr>mOutStream = ''partial'', mErrStream = Some [],
           trace = [SysSelect 3 READ_TIMEOUT, SysRead 3 sizeof_buffer],
           select_rets = [SelectOk 0 False], read_rets = []\<rparr>) \<and>
   PipeRelay_delete 0
     \<lparr>mInitCheck = OK, mFds0 = 3, mFds1 = 4,
       mThread = Some \<lparr>mFd = 3, mFinished = False, mFqName = ''a/b'', pc = LoopTop\<rparr>\<rparr>
     \<lparr>mOutStream = ''partial'', mErrStream = Some [],
       trace = [SysSelect 3 READ_TIMEOUT, SysRead 3 sizeof_buffer],
       select_rets = [SelectOk 0 False], read_rets = []\<rparr> =
   Some (\<lparr>mInitCheck = OK, mFds0 = - 1, mFds1 = - 1, mThread = None\<rparr>,
         \<lparr>mOutStream = ''partial'',
           mErrStream = Some ''debug a/b: timeout reading from pipe, output may be truncated.'',
           trace = [SysSelect 3 READ_TIMEOUT, SysRead 3 sizeof_buffer, SysClose 4, StoreFinished,
                    SysSelect 3 READ_TIMEOUT, LoadFinished, ThreadExit, ThreadJoin, SysClose 3],
           select_rets = [], read_rets = []\<rparr>)"
  using timeout_policy [where w = "world_init (Some []) [SelectOk 0 False] []"
      and j = 0 and n = 0 and b = False and srest = "[]" and t = "RelayThread_new 3 ''a/b''"]
    timeout_policy [where w = "world_init (Some []) [SelectOk 0 False] []"
      and j = 0 and n = 0 and b = False and srest = "[]"
      and t = "(RelayThread_new 3 ''a/b'')\<lparr>mFinished := True\<rparr>"]
    timeout_policy [where k = 2 and m = 0
      and this = "\<lparr>mInitCheck = OK, mFds0 = 3, mFds1 = 4,
        mThread = Some \<lparr>mFd = 3, mFinished = False, mFqName = ''a/b'', pc = LoopTop\<rparr>\<rparr>"
      and t = "\<lparr>mFd = 3, mFinished = False, mFqName = ''a/b'', pc = LoopTop\<rparr>"
      and w = "world_init (Some []) [SelectOk 1 True, SelectOk 0 False] [ReadOk ''partial'']"]
  by (simp add: world_init_def RelayThread_new_def err_put_def worker_moves_def
        eval_nat_numeral sizeof_buffer_def PipeRelay_delete_def CloseFd_def setFinished_def
        join_def run_thread.simps running_def thread_step_def threadLoop_select_def
        threadLoop_body_def threadLoop_read_def log_def out_write_def Let_def)

subsection \<open>Construction\<close>

text \<open>
  C5: when \<open>pipe\<close> fails with \<open>errno = e\<close> the constructor returns a relay whose
  \<open>initCheck\<close> is \<open>-e\<close>, with no thread object, no thread run (the world is as it
  was), and \<open>fd\<close> gives what the slot \<open>mFds[1]\<close> held before, not a descriptor of a
  pipe. When \<open>pipe\<close> succeeds the relay holds the two ends, the worker is made on the
  read end with its flag false, and \<open>initCheck\<close> is the status \<open>Thread::run\<close>
  returned, whatever it is; \<open>fd\<close> is the write end.
\<close>

theorem construction_status:
  "PipeRelay_new d0 d1 interfaceName instanceName (PipeFail e) status w =
     (\<lparr>mInitCheck = - e, mFds0 = d0, mFds1 = d1, mThread = None\<rparr>, w) \<and>
   initCheck (fst (PipeRelay_new d0 d1 interfaceName instanceName (PipeFail e) status w)) = - e \<and>
   fd (fst (PipeRelay_new d0 d1 interfaceName instanceName (PipeFail e) status w)) = d1 \<and>
   PipeRelay_new d0 d1 interfaceName instanceName (PipeOk r wr) status w =
     (\<lparr>mInitCheck = status, mFds0 = r, mFds1 = wr,
       mThread = Some \<lparr>mFd = r, mFinished = False,
                        mFqName = interfaceName @ ''/'' @ instanceName,
                        pc = (if status = OK then LoopTop else NotStarted)\<rparr>\<rparr>,
      log (ThreadRun (getThreadName interfaceName instanceName)) w) \<and>
   initCheck (fst (PipeRelay_new d0 d1 interfaceName instanceName (PipeOk r wr) status w)) = status \<and>
   fd (fst (PipeRelay_new d0 d1 interfaceName instanceName (PipeOk r wr) status w)) = wr"
  by (simp add: PipeRelay_new_def Let_def run_def RelayThread_new_def initCheck_def fd_def)

theorem construction_status_witness:
  "initCheck (fst (PipeRelay_new 7 8 ''a.b'' ''c'' (PipeFail 24) OK (world_init None [] []))) = - 24 \<and>
   mThread (fst (PipeRelay_new 7 8 ''a.b'' ''c'' (PipeFail 24) OK (world_init None [] []))) = None \<and>
   trace (snd (PipeRelay_new 7 8 ''a.b'' ''c'' (PipeFail 24) OK (world_init None [] []))) = [] \<and>
   initCheck (fst (PipeRelay_new 7 8 ''a.b'' ''c'' (PipeOk 3 4) (- 12) (world_init None [] []))) = - 12 \<and>
   fd (fst (PipeRelay_new 7 8 ''a.b'' ''c'' (PipeOk 3 4) OK (world_init None [] []))) = 4"
  using construction_status [of 7 8 "''a.b''" "''c''" 24 OK "world_init None [] []" 3 4]
    construction_status [of 7 8 "''a.b''" "''c''" 24 "- 12" "world_init None [] []" 3 4]
  by (simp add: world_init_def initCheck_def fd_def)

subsection \<open>Failures of the wait and of the read\<close>

text \<open>
  C6: a failure of \<open>select\<close> or of \<open>read\<close> that is not an interruption ends the worker
  with a diagnostic. After any number of interrupted calls, which leave no mark, a
  failed wait makes \<open>threadLoop\<close> put \<open>debug <label>: select() failed\<close> on the error
  stream and return false, and a failed read after a ready wait makes it put
  \<open>debug <label>: read() failed\<close> and return false, the label being \<open>mFqName\<close>. In
  both cases the function returns: nothing is raised. A thread at the top of its loop
  whose \<open>threadLoop\<close> returns false has exited after its two moves, and an exited
  thread stays as it is.
\<close>

theorem genuine_error_exits:
  "(select_rets w = replicate j (SelectFail EINTR) @ SelectFail e # srest \<and> e \<noteq> EINTR \<longrightarrow>
      threadLoop t w =
        Some (False, err_put (''debug '' @ mFqName t @ '': select() failed'')
                       (w\<lparr>select_rets := srest,
                          trace := trace w @ [SysSelect (mFd t) READ_TIMEOUT]\<rparr>))) \<and>
   (select_rets w = replicate j (SelectFail EINTR) @ SelectOk (Suc n) True # srest \<and>
    read_rets w = replicate i (ReadFail EINTR) @ ReadFail e # rrest \<and> e \<noteq> EINTR \<longrightarrow>
      threadLoop t w =
        Some (False, err_put (''debug '' @ mFqName t @ '': read() failed'')
                       (w\<lparr>select_rets := srest, read_rets := rrest,
                          trace := trace w @ [SysSelect (mFd t) READ_TIMEOUT,
                                              SysRead (mFd t) sizeof_buffer]\<rparr>))) \<and>
   (pc t = LoopTop \<and> threadLoop t w = Some (False, w1) \<longrightarrow>
      thread_steps 2 t w = Some (t\<lparr>pc := Exited\<rparr>, log ThreadExit w1)) \<and>
   thread_steps k (t\<lparr>pc := Exited\<rparr>) w = Some (t\<lparr>pc := Exited\<rparr>, w)"
proof (intro conjI impI)
  assume a: "select_rets w = replicate j (SelectFail EINTR) @ SelectFail e # srest \<and> e \<noteq> EINTR"
  then have "threadLoop_select t w =
      Some (SelectFail e, log (SysSelect (mFd t) READ_TIMEOUT) (w\<lparr>select_rets := srest\<rparr>))"
    by (simp add: threadLoop_select_skip)
  then show "threadLoop t w =
        Some (False, err_put (''debug '' @ mFqName t @ '': select() failed'')
                       (w\<lparr>select_rets := srest,
                          trace := trace w @ [SysSelect (mFd t) READ_TIMEOUT]\<rparr>))"
    by (simp add: threadLoop_def threadLoop_body_fail log_def)
next
  assume a: "select_rets w = replicate j (SelectFail EINTR) @ SelectOk (Suc n) True # srest \<and>
    read_rets w = replicate i (ReadFail EINTR) @ ReadFail e # rrest \<and> e \<noteq> EINTR"
  then show "threadLoop t w =
        Some (False, err_put (''debug '' @ mFqName t @ '': read() failed'')
                       (w\<lparr>select_rets := srest, read_rets := rrest,
                          trace := trace w @ [SysSelect (mFd t) READ_TIMEOUT,
                                              SysRead (mFd t) sizeof_buffer]\<rparr>))"
    using threadLoop_ready [of w j n srest i "ReadFail e" rrest t] by simp
next
  assume "pc t = LoopTop \<and> threadLoop t w = Some (False, w1)"
  then show "thread_steps 2 t w = Some (t\<lparr>pc := Exited\<rparr>, log ThreadExit w1)"
    using threadLoop_steps [of t w False w1] by simp
next
  show "thread_steps k (t\<lparr>pc := Exited\<rparr>) w = Some (t\<lparr>pc := Exited\<rparr>, w)"
    by (rule thread_steps_not_running) (simp add: running_def)
qed


theorem genuine_error_exits_witness:
  "threadLoop (RelayThread_new 3 ''a/b'')
     (world_init (Some []) [SelectFail EINTR, SelectFail 9] []) =
   Some (False,
     \<lparr>mOutStream = [], mErrStream = Some ''debug a/b: select() failed'',
      trace = [SysSelect 3 READ_TIMEOUT], select_rets = [], read_rets = []\<rparr>) \<and>
   threadLoop (RelayThread_new 3 ''a/b'')
     (world_init (Some []) [SelectOk 1 True] [ReadFail EINTR, ReadFail 5]) =
   Some (False,
     \<lparr>mOutStream = [], mErrStream = Some ''debug a/b: read() failed'',
      trace = [SysSelect 3 READ_TIMEOUT, SysRead 3 sizeof_buffer],
      select_rets = [], read_rets = []\<rparr>)"
  using genuine_error_exits [where w = "world_init (Some []) [SelectFail EINTR, SelectFail 9] []"
      and j = 1 and e = 9 and srest = "[]" and t = "RelayThread_new 3 ''a/b''"]
    genuine_error_exits [where w = "world_init (Some []) [SelectOk 1 True] [ReadFail EINTR, ReadFail 5]"
      and j = 0 and n = 0 and e = 5 and srest = "[]" and i = 1 and rrest = "[]"
      and t = "RelayThread_new 3 ''a/b''"]
  by (simp add: world_init_def RelayThread_new_def EINTR_def err_put_def)

subsection \<open>End of the stream\<close>

text \<open>
  C7: a read of no bytes ends the worker silently. When the wait, after any number of
  interruptions, reports the read end ready and the read, after any number of
  interruptions, returns no bytes, \<open>threadLoop\<close> returns false and the world differs
  only in the answers taken and the two calls logged: nothing is put on the error
  stream and nothing is written to the output stream. The thread then exits.
\<close>

theorem eof_exits_silently:
  assumes sel: "select_rets w = replicate j (SelectFail EINTR) @ SelectOk (Suc n) True # srest"
    and rd: "read_rets w = replicate i (ReadFail EINTR) @ ReadOk [] # rrest"
  shows "threadLoop t w =
           Some (False, w\<lparr>select_rets := srest, read_rets := rrest,
                   trace := trace w @ [SysSelect (mFd t) READ_TIMEOUT, SysRead (mFd t) sizeof_buffer]\<rparr>) \<and>
         (pc t = LoopTop \<longrightarrow>
            thread_steps 2 t w =
              Some (t\<lparr>pc := Exited\<rparr>, w\<lparr>select_rets := srest, read_rets := rrest,
                   trace := trace w @ [SysSelect (mFd t) READ_TIMEOUT, SysRead (mFd t) sizeof_buffer,
                                       ThreadExit]\<rparr>))"
proof -
  have a: "threadLoop t w =
           Some (False, w\<lparr>select_rets := srest, read_rets := rrest,
                   trace := trace w @ [SysSelect (mFd t) READ_TIMEOUT, SysRead (mFd t) sizeof_buffer]\<rparr>)"
    using threadLoop_ready [OF sel rd] by simp
  show ?thesis
  proof (intro conjI impI)
    show "threadLoop t w =
           Some (False, w\<lparr>select_rets := srest, read_rets := rrest,
                   trace := trace w @ [SysSelect (mFd t) READ_TIMEOUT, SysRead (mFd t) sizeof_buffer]\<rparr>)"
      by (rule a)
  next
    assume "pc t = LoopTop"
    from threadLoop_steps [OF this a]
    show "thread_steps 2 t w =
              Some (t\<lparr>pc := Exited\<rparr>, w\<lparr>select_rets := srest, read_rets := rrest,
                   trace := trace w @ [SysSelect (mFd t) READ_TIMEOUT, SysRead (mFd t) sizeof_buffer,
                                       ThreadExit]\<rparr>)"
      by (simp add: log_def)
  qed
qed

theorem eof_exits_silently_witness:
  "threadLoop (RelayThread_new 3 ''a/b'')
     (world_init (Some []) [SelectFail EINTR, SelectOk 1 True] [ReadOk []]) =
   Some (False,
     \<lparr>mOutStream = [], mErrStream = Some [],
      trace = [SysSelect 3 READ_TIMEOUT, SysRead 3 sizeof_buffer],
      select_rets = [], read_rets = []\<rparr>)"
  using eof_exits_silently [of "world_init (Some []) [SelectFail EINTR, SelectOk 1 True] [ReadOk []]"
      1 0 "[]" 0 "[]" "RelayThread_new 3 ''a/b''"]
  by (simp add: world_init_def RelayThread_new_def)

subsection \<open>The flag \<open>mFinished\<close>\<close>

text \<open>
  In the embedding \<open>mFinished\<close> starts false and only ever goes from false to true. The
  constructor of the worker sets it false, and so the thread of a relay just made has
  it false; \<open>setFinished\<close> sets it true and changes no other field of the worker;
  \<open>run\<close>, every move of the thread (\<open>threadLoop\<close> returns a truth value and a world,
  never a changed worker), any number of moves, and \<open>join\<close> leave it as it is.
  Which data the two threads share, and how the flag is declared and read, is a
  matter of the memory model of the language, which the embedding does not have.
\<close>

lemma finished_monotone:
  "mFinished (RelayThread_new d name) = False \<and>
   (PipeRelay_new d0 d1 interfaceName instanceName pr status w = (this, w1) \<and>
    mThread this = Some t1 \<longrightarrow> mFinished t1 = False) \<and>
   setFinished t w = (t\<lparr>mFinished := True\<rparr>, log StoreFinished w) \<and>
   mFinished (fst (run name status t w)) = mFinished t \<and>
   (thread_step t w = Some (t1, w1) \<longrightarrow> mFinished t1 = mFinished t) \<and>
   (thread_steps k t w = Some (t1, w1) \<longrightarrow> mFinished t1 = mFinished t) \<and>
   (join t w = Some (t1, w1) \<longrightarrow> mFinished t1 = mFinished t) \<and>
   (mThread this = Some t \<and> worker_moves k this w = Some (this1, w1) \<and>
    mThread this1 = Some t1 \<longrightarrow> mFinished t1 = mFinished t)"
proof (intro conjI impI)
  show "mFinished (RelayThread_new d name) = False"
    by (simp add: RelayThread_new_def)
next
  assume "PipeRelay_new d0 d1 interfaceName instanceName pr status w = (this, w1) \<and>
    mThread this = Some t1"
  then show "mFinished t1 = False"
    by (cases pr) (auto simp: PipeRelay_new_def Let_def run_def RelayThread_new_def split: if_splits)
next
  show "setFinished t w = (t\<lparr>mFinished := True\<rparr>, log StoreFinished w)"
    by (simp add: setFinished_def)
next
  show "mFinished (fst (run name status t w)) = mFinished t"
    by (simp add: run_def)
next
  assume "thread_step t w = Some (t1, w1)"
  then show "mFinished t1 = mFinished t"
    by (simp add: thread_step_fields)
next
  assume "thread_steps k t w = Some (t1, w1)"
  then show "mFinished t1 = mFinished t"
    by (simp add: thread_steps_fields)
next
  assume "join t w = Some (t1, w1)"
  then obtain w0 where "run_thread t w = Some (t1, w0)"
    by (auto simp: join_def split: option.splits)
  then show "mFinished t1 = mFinished t"
    by (simp add: run_thread_fields)
next
  assume "mThread this = Some t \<and> worker_moves k this w = Some (this1, w1) \<and>
    mThread this1 = Some t1"
  then have "thread_steps k t w = Some (t1, w1)"
    by (auto simp: worker_moves_def split: option.splits)
  then show "mFinished t1 = mFinished t"
    by (simp add: thread_steps_fields)
qed

subsection \<open>The close helper\<close>

text \<open>
  C9: \<open>CloseFd\<close> is idempotent. On a slot that holds a negative value it changes
  neither the slot nor the world; on a slot that holds a descriptor it calls \<open>close\<close>
  once and leaves \<open>-1\<close>; in both cases the slot is negative afterwards and a second
  application changes nothing, so two applications close the descriptor at most once.
\<close>

theorem CloseFd_idempotent:
  "CloseFd d w = (d1, w1) \<Longrightarrow>
     (d < 0 \<longrightarrow> d1 = d \<and> w1 = w) \<and>
     (0 \<le> d \<longrightarrow> d1 = - 1 \<and> w1 = log (SysClose d) w) \<and>
     d1 < 0 \<and>
     CloseFd d1 w1 = (d1, w1)"
  by (auto simp: CloseFd_def split: if_splits)

theorem CloseFd_idempotent_witness:
  "CloseFd 4 (world_init None [] []) = (- 1, log (SysClose 4) (world_init None [] [])) \<and>
   CloseFd (- 1) (log (SysClose 4) (world_init None [] [])) =
     (- 1, log (SysClose 4) (world_init None [] [])) \<and>
   trace (log (SysClose 4) (world_init None [] [])) = [SysClose 4]"
  using CloseFd_idempotent [of 4 "world_init None [] []" "- 1" "log (SysClose 4) (world_init None [] [])"]
  by (simp add: CloseFd_def world_init_def log_def)

subsection \<open>Destruction after a failed construction\<close>

text \<open>
  C10: the destructor of a relay whose construction failed at \<open>pipe\<close> always
  returns, whatever the operating system would answer and whatever the schedule, and
  does nothing but the two calls of \<open>CloseFd\<close>: the log grows by the closes of the slots that held a
  non-negative value, the flag is not stored and \<open>join\<close> is not called. The same
  holds for every relay whose \<open>mThread\<close> is null.
\<close>

theorem destruction_without_thread:
  "PipeRelay_delete k (fst (PipeRelay_new d0 d1 interfaceName instanceName (PipeFail e) status w))
     (snd (PipeRelay_new d0 d1 interfaceName instanceName (PipeFail e) status w)) =
     Some (\<lparr>mInitCheck = - e,
             mFds0 = (if 0 \<le> d0 then - 1 else d0),
             mFds1 = (if 0 \<le> d1 then - 1 else d1),
             mThread = None\<rparr>,
           w\<lparr>trace := trace w @ (if 0 \<le> d1 then [SysClose d1] else []) @
                               (if 0 \<le> d0 then [SysClose d0] else [])\<rparr>) \<and>
   (mThread this = None \<longrightarrow>
      PipeRelay_delete k this w =
        Some (this\<lparr>mFds0 := (if 0 \<le> mFds0 this then - 1 else mFds0 this),
                   mFds1 := (if 0 \<le> mFds1 this then - 1 else mFds1 this)\<rparr>,
              w\<lparr>trace := trace w @ (if 0 \<le> mFds1 this then [SysClose (mFds1 this)] else []) @
                                  (if 0 \<le> mFds0 this then [SysClose (mFds0 this)] else [])\<rparr>))"
  by (simp add: PipeRelay_new_def Let_def PipeRelay_delete_def CloseFd_def log_def)

theorem destruction_without_thread_witness:
  "PipeRelay_delete 0 (fst (PipeRelay_new (- 1) (- 1) ''a.b'' ''c'' (PipeFail 24) OK
                            (world_init None [] [])))
     (world_init None [] []) =
     Some (\<lparr>mInitCheck = - 24, mFds0 = - 1, mFds1 = - 1, mThread = None\<rparr>,
           world_init None [] []) \<and>
   PipeRelay_delete 5 \<lparr>mInitCheck = - 24, mFds0 = 7, mFds1 = 8, mThread = None\<rparr>
     (world_init None [] []) =
     Some (\<lparr>mInitCheck = - 24, mFds0 = - 1, mFds1 = - 1, mThread = None\<rparr>,
           \<lparr>mOutStream = [], mErrStream = None, trace = [SysClose 8, SysClose 7],
             select_rets = [], read_rets = []\<rparr>)"
  using destruction_without_thread [where k = 0 and ?d0.0 = "- 1" and ?d1.0 = "- 1"
      and interfaceName = "''a.b''" and instanceName = "''c''" and e = 24 and status = OK
      and w = "world_init None [] []"]
    destruction_without_thread [where k = 5 and w = "world_init None [] []"
      and this = "\<lparr>mInitCheck = - 24, mFds0 = 7, mFds1 = 8, mThread = None\<rparr>"]
  by (simp add: PipeRelay_new_def Let_def world_init_def)

end
